theory Spec2Isabelle
  imports Complex_Main "HOL-Library.AList"
begin

unbundle bit_operations_syntax

section \<open>Data model\<close>

text \<open>
  The embedding follows \<^verbatim>\<open>src/zytempmqtt/ZyTemp.py\<close>. Python integers are unbounded and
  are modelled as \<^typ>\<open>int\<close>; the masks \<^verbatim>\<open>& 0xff\<close> of the source are written out. A report
  read from the device is a list of integers. The readings are Python numbers (a float for
  the temperature, an integer for CO2); in the table and in the cache they are modelled as
  \<^typ>\<open>real\<close>, that is, the float expression \<^verbatim>\<open>x / 16 - 273.15\<close> is read there in exact
  arithmetic. On the raw values \<open>0 .. 65535\<close> distinct raw values give distinct floats, so
  the comparison of readings is not affected by this reading. The value the interpreter
  computes in binary64 is given apart, as \<open>Temperature_float\<close> below: it differs from the
  exact value by the rounding of the literal \<^verbatim>\<open>273.15\<close> and of the subtraction. The Python
  value \<^verbatim>\<open>None\<close> of a cache entry is \<^term>\<open>None\<close> of \<^typ>\<open>real option\<close>.
\<close>

datatype py_error = IndexError | KeyError | OverflowError

text \<open>Lines 10-11: the manufacturer and product strings of the sensor.\<close>

definition CO2_USB_MFG :: string where
  "CO2_USB_MFG = ''Holtek''"

definition CO2_USB_PRD :: string where
  "CO2_USB_PRD = ''USB-zyTemp''"

text \<open>Line 14: the first measurements are ignored during self-calibration.\<close>

definition IGNORE_N_MEASUREMENTS :: int where
  "IGNORE_N_MEASUREMENTS = 5"

text \<open>Line 17: the key used to decrypt.\<close>

definition KEY :: "int list" where
  "KEY = [0xc4, 0xc6, 0xc0, 0x92, 0x40, 0x23, 0xdc, 0x96]"

text \<open>
  Lines 23-38: the table \<^verbatim>\<open>ZyTemp.MEASUREMENTS\<close>, a dictionary from the tag byte to the
  description of the measurement. It is an association list in the order of the source;
  a lookup is \<^term>\<open>map_of\<close>. The degree sign of the unit is the character with code 0xB0.
\<close>

record measurement =
  name :: string
  unit :: string
  conversion :: "int \<Rightarrow> real"
  ha_device_class :: string
  ha_icon :: string

definition MEASUREMENTS :: "(int \<times> measurement) list" where
  "MEASUREMENTS =
     [(0x42, \<lparr>name = ''Temperature'',
              unit = [CHR 0xB0, CHR ''C''],
              conversion = (\<lambda>x. real_of_int x / 16 - 273.15),
              ha_device_class = ''temperature'',
              ha_icon = ''mdi:thermometer''\<rparr>),
      (0x50, \<lparr>name = ''CO2'',
              unit = ''ppm'',
              conversion = (\<lambda>x. real_of_int x),
              ha_device_class = ''carbon_dioxide'',
              ha_icon = ''mdi:molecule-co2''\<rparr>)]"

text \<open>
  The configuration comes from the class \<^verbatim>\<open>ConfigFile\<close> of the module \<^verbatim>\<open>config\<close>, which is
  not part of the sources at hand: its three attributes read by \<^verbatim>\<open>ZyTemp\<close> are a parameter.
\<close>

record config =
  discovery_prefix :: string
  mqtt_topic :: string
  friendly_name :: string

text \<open>
  The effects on the collaborators (the HID device \<^verbatim>\<open>self.h\<close>, the MQTT client \<^verbatim>\<open>self.m\<close>
  and the logger) are recorded as a trace of events, in the order of the calls. A log
  record keeps the level and the data its message is formatted from. The two calls of
  \<^verbatim>\<open>publish\<close> are two events: the snapshot of the readings (line 95), and a configuration
  document sent with \<^verbatim>\<open>retain=True\<close> (lines 76-82), a nested dictionary of strings, lists
  and truth values.
\<close>

datatype document =
    Str string
  | Bool bool
  | Array "document list"
  | Dict "(string \<times> document) list"

datatype log_level = DEBUG | INFO | ERROR

datatype log_msg =
    OS_error string
  | Read_error
  | Encrypted_data
  | Checksum_error
  | Unknown_key int
  | Reading string real string bool

datatype event =
    Log log_level log_msg
  | Send_feature_report "int list"
  | Publish string "(string \<times> real option) list"
  | Publish_retained string document
  | Mqtt_run real
  | Close

text \<open>
  The fields of a \<^verbatim>\<open>ZyTemp\<close> object. The dictionary \<^verbatim>\<open>self.values\<close> is an association
  list from the name of a measurement to its last reading, in insertion order (the field
  is written \<open>values'\<close>, since \<open>values\<close> is a keyword of Isabelle).
\<close>

record zytemp =
  cfg :: config
  measurements_to_ignore :: int
  values' :: "(string \<times> real option) list"

section \<open>The temperature conversion in binary64\<close>

text \<open>
  Line 27 as the interpreter computes it. A finite double is a rational number. The
  exponent of a rational \<open>q\<close> other than 0 is the \<open>e\<close> with \<open>2 ^ e \<le> \<bar>q\<bar> < 2 ^ (e + 1)\<close>,
  found from the number of binary digits of the integer part of \<open>\<bar>q\<bar>\<close>, or of its inverse
  when \<open>\<bar>q\<bar> < 1\<close>. The nearest double is the nearest multiple of the unit in the last place,
  \<open>2 ^ (e - 52)\<close> (and \<open>2 ^ - 1074\<close> below the normal range), a tie going to the even
  multiple.
\<close>

fun ilog2 :: "nat \<Rightarrow> nat" where
  "ilog2 n = (if n < 2 then 0 else Suc (ilog2 (n div 2)))"

declare ilog2.simps [simp del]

definition pow2 :: "int \<Rightarrow> rat" where
  "pow2 k = (if 0 \<le> k then 2 ^ nat k else 1 / 2 ^ nat (- k))"

definition round_half_even :: "rat \<Rightarrow> int" where
  "round_half_even q =
     (let f = \<lfloor>q\<rfloor>; d = q - of_int f
      in if d < 1 / 2 then f else if 1 / 2 < d then f + 1 else if even f then f else f + 1)"

definition float_exponent :: "rat \<Rightarrow> int" where
  "float_exponent q =
     (if 1 \<le> \<bar>q\<bar> then int (ilog2 (nat \<lfloor>\<bar>q\<bar>\<rfloor>))
      else - int (Suc (ilog2 (nat \<lceil>1 / \<bar>q\<bar>\<rceil> - 1))))"

definition binary64 :: "rat \<Rightarrow> rat" where
  "binary64 q =
     (if q = 0 then 0
      else let ulp = pow2 (max (float_exponent q) (- 1022) - 52)
           in of_int (round_half_even (q / ulp)) * ulp)"

text \<open>
  The expression \<^verbatim>\<open>x / 16 - 273.15\<close> on an integer \<open>x\<close>: the true division of two integers
  gives the double nearest to the quotient and raises \<^verbatim>\<open>OverflowError\<close> when that is beyond
  the largest double; the literal is the double nearest to \<open>273.15\<close>; the subtraction gives
  the double nearest to the difference of the two doubles, which stays within the range of
  the doubles since the spacing of the largest ones is far above \<open>273.15\<close>.
\<close>

definition Temperature_float :: "int \<Rightarrow> py_error + rat" where
  "Temperature_float x =
     (let q = binary64 (of_int x / 16)
      in if 2 ^ 1024 \<le> \<bar>q\<bar> then Inl OverflowError
         else Inr (binary64 (q - binary64 273.15)))"

section \<open>The byte transform\<close>

text \<open>
  Lines 172-196. Each \<^verbatim>\<open>for\<close> loop over \<^verbatim>\<open>range(8)\<close> that fills a fresh list
  \<^verbatim>\<open>[0] * 8\<close> is a fold of list updates. The reads \<^verbatim>\<open>data[i]\<close> and \<^verbatim>\<open>key[i]\<close> for
  \<open>i = 0 .. 7\<close> raise \<^verbatim>\<open>IndexError\<close> on a list shorter than 8, before anything is
  returned; elements beyond the eighth are never read.
\<close>

definition cstate :: "int list" where
  "cstate = [0x48, 0x74, 0x65, 0x6D, 0x70, 0x39, 0x39, 0x65]"

definition shuffle :: "nat list" where
  "shuffle = [2, 4, 0, 7, 1, 6, 5, 3]"

definition decrypt :: "int list \<Rightarrow> int list \<Rightarrow> py_error + int list" where
  "decrypt key data =
     (if length data < 8 \<or> length key < 8 then Inl IndexError
      else
        let phase1 = fold (\<lambda>(i, o'). \<lambda>p. p[o' := data ! i])
                       (enumerate 0 shuffle) (replicate 8 0);
            phase2 = fold (\<lambda>i p. p[i := (phase1 ! i) XOR (key ! i)])
                       [0..<8] (replicate 8 0);
            phase3 = fold (\<lambda>i p. p[i := ((drop_bit 3 (phase2 ! i)) OR
                                          (push_bit 5 (phase2 ! nat ((int i - 1 + 8) mod 8))))
                                         AND 0xff])
                       [0..<8] (replicate 8 0);
            ctmp = fold (\<lambda>i p. p[i := ((drop_bit 4 (cstate ! i)) OR (push_bit 4 (cstate ! i)))
                                       AND 0xff])
                       [0..<8] (replicate 8 0);
            out = fold (\<lambda>i p. p[i := (0x100 + phase3 ! i - ctmp ! i) AND 0xff])
                       [0..<8] (replicate 8 0)
        in Inr out)"

section \<open>The session object\<close>

text \<open>Lines 40-46, \<^verbatim>\<open>__init__\<close>: the key is sent to the device and the fields are set.\<close>

definition init :: "config \<Rightarrow> zytemp \<times> event list" where
  "init c =
     (\<lparr>cfg = c,
       measurements_to_ignore = IGNORE_N_MEASUREMENTS,
       values' = map (\<lambda>(tag, v). (name v, None)) MEASUREMENTS\<rparr>,
      [Send_feature_report [0xc4, 0xc6, 0xc0, 0x92, 0x40, 0x23, 0xdc, 0x96]])"

text \<open>Lines 48-49, \<^verbatim>\<open>__del__\<close>: the finaliser closes the device.\<close>

definition del :: "zytemp \<Rightarrow> event list" where
  "del s = [Close]"

text \<open>
  Lines 86-95, \<^verbatim>\<open>update\<close>. The read \<^verbatim>\<open>self.values[key]\<close> raises \<^verbatim>\<open>KeyError\<close> for a key
  the dictionary lacks. The assignment to a key that is present keeps its position.
\<close>

definition update :: "zytemp \<Rightarrow> string \<Rightarrow> real option \<Rightarrow> py_error + zytemp \<times> event list" where
  "update s key value =
     (case map_of (values' s) key of
        None \<Rightarrow> Inl KeyError
      | Some old \<Rightarrow>
          if old = value then Inr (s, [])
          else
            let s' = s\<lparr>values' := AList.update key value (values' s)\<rparr>
            in if list_ex (\<lambda>v. v = None) (map snd (values' s')) then Inr (s', [])
               else Inr (s', [Publish (mqtt_topic (cfg s')) (values' s')]))"

section \<open>The session loop\<close>

text \<open>
  Lines 111-113: the report is decrypted unless its fifth byte is \<^verbatim>\<open>0x0d\<close>. The read
  \<^verbatim>\<open>r[4]\<close> raises \<^verbatim>\<open>IndexError\<close> on a report of fewer than five bytes. The result
  carries the events logged on the way.
\<close>

definition candidate :: "int list \<Rightarrow> (py_error + int list) \<times> event list" where
  "candidate r =
     (if length r \<le> 4 then (Inl IndexError, [])
      else if r ! 4 \<noteq> 0x0d then (decrypt KEY r, [Log DEBUG Encrypted_data])
      else (Inr r, []))"

text \<open>Line 115: the checksum test \<^verbatim>\<open>r[3] != sum(r[0:3]) & 0xff\<close>, here in its positive form.\<close>

definition checksum_ok :: "int list \<Rightarrow> bool" where
  "checksum_ok r = (r ! 3 = (sum_list (take 3 r)) AND 0xff)"

text \<open>
  Lines 111-141: one pass through the body of the loop, after a non-empty report has been
  read. The result is the new state of the object, the events of the pass and the
  exception that left the loop, if any; \<^verbatim>\<open>continue\<close> and the end of the body both give
  \<^term>\<open>None\<close>.
\<close>

definition iteration :: "zytemp \<Rightarrow> int list \<Rightarrow> zytemp \<times> event list \<times> py_error option" where
  "iteration s r0 =
     (case candidate r0 of
        (Inl e, evs1) \<Rightarrow> (s, evs1, Some e)
      | (Inr r, evs1) \<Rightarrow>
          if \<not> checksum_ok r then (s, evs1 @ [Log ERROR Checksum_error], None)
          else
            let m_type = r ! 0;
                m_val = (push_bit 8 (r ! 1)) OR (r ! 2)
            in case map_of MEASUREMENTS m_type of
                 None \<Rightarrow> (s, evs1 @ [Log DEBUG (Unknown_key m_type)], None)
               | Some m \<Rightarrow>
                   let m_name = name m;
                       m_unit = unit m;
                       m_reading = conversion m m_val;
                       ignore = (measurements_to_ignore s > 0);
                       evs2 = evs1 @ [Log DEBUG (Reading m_name m_reading m_unit ignore)]
                   in case (if \<not> ignore then update s m_name (Some m_reading)
                            else Inr (s, [])) of
                        Inl e \<Rightarrow> (s, evs2, Some e)
                      | Inr (s', evs3) \<Rightarrow>
                          (if m_name = ''CO2'' \<and> measurements_to_ignore s' \<noteq> 0
                           then s'\<lparr>measurements_to_ignore := measurements_to_ignore s' - 1\<rparr>
                           else s',
                           evs2 @ evs3 @ [Mqtt_run (1 / 10)],
                           None))"

text \<open>
  Lines 53-84, \<^verbatim>\<open>discovery\<close>: unless the discovery prefix is empty, one retained
  configuration document per measurement, then one call of the network pump. The module
  \<^verbatim>\<open>os.path\<close> is the one of POSIX: \<^verbatim>\<open>basename\<close> is what follows the last slash, and
  \<^verbatim>\<open>join\<close> restarts at a component that begins with a slash and puts a slash between
  the others unless one is there.
\<close>

definition basename :: "string \<Rightarrow> string" where
  "basename p = rev (takeWhile (\<lambda>c. c \<noteq> CHR ''/'') (rev p))"

definition path_join :: "string \<Rightarrow> string list \<Rightarrow> string" where
  "path_join a p =
     fold (\<lambda>b path.
             if b \<noteq> [] \<and> hd b = CHR ''/'' then b
             else if path = [] \<or> last path = CHR ''/'' then path @ b
             else path @ ''/'' @ b)
          p a"

definition discovery :: "zytemp \<Rightarrow> event list" where
  "discovery s =
     (if length (discovery_prefix (cfg s)) = 0 then []
      else
        map (\<lambda>(tag, meas).
               let id = basename (mqtt_topic (cfg s));
                   unique_id = id @ ''_'' @ name meas;
                   config_content = Dict
                     [(''device'', Dict
                         [(''identifiers'', Array [Str id]),
                          (''manufacturer'', Str CO2_USB_MFG),
                          (''model'', Str CO2_USB_PRD),
                          (''name'', Str (friendly_name (cfg s)))]),
                      (''enabled_by_default'', Bool True),
                      (''state_class'', Str ''measurement''),
                      (''device_class'', Str (ha_device_class meas)),
                      (''name'', Str (friendly_name (cfg s) @ '' '' @ name meas)),
                      (''state_topic'', Str (mqtt_topic (cfg s))),
                      (''unique_id'', Str unique_id),
                      (''unit_of_measurement'', Str (unit meas)),
                      (''value_template'', Str (''{{ value_json.'' @ name meas @ '' }}'')),
                      (''icon'', Str (ha_icon meas))]
               in Publish_retained
                    (path_join (discovery_prefix (cfg s)) [''sensor'', unique_id, ''config''])
                    config_content)
            MEASUREMENTS
        @ [Mqtt_run (1 / 10)])"

text \<open>
  Lines 99-141: the loop \<^verbatim>\<open>while True\<close> of \<^verbatim>\<open>run\<close>. The device is a script of the results
  of the successive calls \<^verbatim>\<open>self.h.read(8)\<close>: the call raises \<^verbatim>\<open>OSError\<close> or returns a list
  of bytes. When the script is used up the next read blocks, and the loop has not ended.
\<close>

datatype read_result = Read_OSError string | Read_data "int list"

datatype outcome = Returned | Raised py_error | Blocked

fun run_loop :: "zytemp \<Rightarrow> read_result list \<Rightarrow> zytemp \<times> event list \<times> outcome" where
  "run_loop s [] = (s, [], Blocked)"
| "run_loop s (Read_OSError err # rest) = (s, [Log ERROR (OS_error err)], Returned)"
| "run_loop s (Read_data r # rest) =
     (if r = [] then (s, [Log ERROR Read_error, Close], Returned)
      else
        case iteration s r of
          (s', evs, Some e) \<Rightarrow> (s', evs, Raised e)
        | (s', evs, None) \<Rightarrow>
            (case run_loop s' rest of (s'', evs', out) \<Rightarrow> (s'', evs @ evs', out)))"

text \<open>Lines 97-141, \<^verbatim>\<open>run\<close>: the discovery, then the loop.\<close>

definition run :: "zytemp \<Rightarrow> read_result list \<Rightarrow> zytemp \<times> event list \<times> outcome" where
  "run s script =
     (case run_loop s script of (s', evs, out) \<Rightarrow> (s', discovery s @ evs, out))"

section \<open>Observations on reports, states and traces\<close>

text \<open>
  The reading that lines 111-129 decode from a report, if they reach line 128: the name of
  the measurement and the converted value. It is \<^term>\<open>None\<close> when the report raises, fails
  the checksum or carries a tag the table lacks.
\<close>

definition reading_of :: "int list \<Rightarrow> (string \<times> real) option" where
  "reading_of r0 =
     (case candidate r0 of
        (Inl e, evs) \<Rightarrow> None
      | (Inr r, evs) \<Rightarrow>
          if \<not> checksum_ok r then None
          else (case map_of MEASUREMENTS (r ! 0) of
                  None \<Rightarrow> None
                | Some m \<Rightarrow> Some (name m, conversion m ((push_bit 8 (r ! 1)) OR (r ! 2)))))"

text \<open>An element of a report is a byte.\<close>

definition is_byte :: "int \<Rightarrow> bool" where
  "is_byte b = (0 \<le> b \<and> b \<le> 255)"

text \<open>The blocks of 8 bytes.\<close>

definition blocks :: "int list set" where
  "blocks = {d. length d = 8 \<and> (\<forall>b \<in> set d. is_byte b)}"

text \<open>The dictionary of readings has the keys \<^verbatim>\<open>__init__\<close> gave it, in their order.\<close>

definition cache_keys_ok :: "zytemp \<Rightarrow> bool" where
  "cache_keys_ok s = (map fst (values' s) = [''Temperature'', ''CO2''])"

text \<open>A snapshot is complete when no entry of it is \<^verbatim>\<open>None\<close>.\<close>

definition complete :: "(string \<times> real option) list \<Rightarrow> bool" where
  "complete snapshot = (\<not> list_ex (\<lambda>v. v = None) (map snd snapshot))"

text \<open>The calls of a trace: of the network pump, of \<^verbatim>\<open>close\<close>, and of \<^verbatim>\<open>publish\<close>.\<close>

fun is_pump :: "event \<Rightarrow> bool" where
  "is_pump (Mqtt_run t) = True"
| "is_pump e = False"

definition pumps :: "event list \<Rightarrow> nat" where
  "pumps evs = length (filter is_pump evs)"

definition closes :: "event list \<Rightarrow> nat" where
  "closes evs = length (filter (\<lambda>e. e = Close) evs)"

fun published :: "event list \<Rightarrow> (string \<times> real option) list list" where
  "published [] = []"
| "published (Publish topic snapshot # evs) = snapshot # published evs"
| "published (e # evs) = published evs"

text \<open>The reports of a script among which a reading named \<open>n\<close> is decoded.\<close>

definition readings_named :: "string \<Rightarrow> int list list \<Rightarrow> nat" where
  "readings_named n frames =
     length (filter (\<lambda>r. map_option fst (reading_of r) = Some n) frames)"

section \<open>The byte transform as the specification words it\<close>

text \<open>
  A second definition of the transform, stage by stage in the words of the specification,
  to be compared with \<^term>\<open>decrypt\<close>. Stage 1: output position \<open>shuffle[i]\<close> receives
  \<open>input[i]\<close>, so position \<open>j\<close> holds the input byte at the place of \<open>j\<close> in the index
  sequence. Stage 2: XOR with the key. Stage 3: the shift over two neighbours, from the
  complete stage 2. Stage 4: the nibble swap of the constant. Stage 5: the subtraction
  modulo 256.
\<close>

definition index_of :: "'a list \<Rightarrow> 'a \<Rightarrow> nat" where
  "index_of xs x = length (takeWhile (\<lambda>y. y \<noteq> x) xs)"

definition spec_stage1 :: "int list \<Rightarrow> int list" where
  "spec_stage1 input = map (\<lambda>j. input ! index_of [2, 4, 0, 7, 1, 6, 5, 3] j) [0..<8]"

definition spec_stage2 :: "int list \<Rightarrow> int list \<Rightarrow> int list" where
  "spec_stage2 key stage1 = map (\<lambda>i. (stage1 ! i) XOR (key ! i)) [0..<8]"

definition spec_stage3 :: "int list \<Rightarrow> int list" where
  "spec_stage3 stage2 =
     map (\<lambda>i. ((drop_bit 3 (stage2 ! i)) OR (push_bit 5 (stage2 ! nat ((int i - 1 + 8) mod 8))))
               AND 0xFF) [0..<8]"

definition spec_swapped :: "int list" where
  "spec_swapped = map (\<lambda>c. ((drop_bit 4 c) OR (push_bit 4 c)) AND 0xFF)
                      [0x48, 0x74, 0x65, 0x6D, 0x70, 0x39, 0x39, 0x65]"

definition spec_transform :: "int list \<Rightarrow> int list \<Rightarrow> int list" where
  "spec_transform key input =
     (let stage3 = spec_stage3 (spec_stage2 key (spec_stage1 input))
      in map (\<lambda>i. (0x100 + stage3 ! i - spec_swapped ! i) AND 0xFF) [0..<8])"

section \<open>Auxiliary facts\<close>

lemma upt8: "[0..<8] = [0, 1, 2, 3, 4, 5, 6, 7]"
  by (simp add: upt_rec)

lemma replicate8: "replicate 8 x = [x, x, x, x, x, x, x, x]"
  by (simp add: numeral_eq_Suc)

lemma length8E:
  assumes "length (xs :: 'a list) = 8"
  obtains a b c d e f g h where "xs = [a, b, c, d, e, f, g, h]"
  using assms by (auto simp: numeral_eq_Suc length_Suc_conv)

lemma less8_cases:
  assumes "i < (8::nat)"
  shows "i = 0 \<or> i = 1 \<or> i = 2 \<or> i = 3 \<or> i = 4 \<or> i = 5 \<or> i = 6 \<or> i = 7"
  using assms by arith

section \<open>The byte transform computes the five stages\<close>

text \<open>Stage 1 of the second definition is the permutation the specification describes.\<close>

lemma spec_stage1_positions:
  assumes "length input = 8" and "i < 8"
  shows "spec_stage1 input ! ([2, 4, 0, 7, 1, 6, 5, 3] ! i) = input ! i"
proof -
  from assms(1) obtain a b c d e f g h where "input = [a, b, c, d, e, f, g, h]"
    by (rule length8E)
  with less8_cases [OF assms(2)] show ?thesis
    by (auto simp: spec_stage1_def upt8 index_of_def)
qed

lemma decrypt_explicit:
  "decrypt KEY [a, b, c, d, e, f, g, h] = Inr (spec_transform KEY [a, b, c, d, e, f, g, h])"
  by (simp add: decrypt_def KEY_def cstate_def shuffle_def upt8 replicate8 enumerate_eq_zip
      Let_def spec_transform_def spec_stage1_def spec_stage2_def spec_stage3_def spec_swapped_def
      index_of_def)

lemma spec_transform_length: "length (spec_transform key input) = 8"
  by (simp add: spec_transform_def Let_def)

lemma spec_transform_bytes:
  "b \<in> set (spec_transform key input) \<Longrightarrow> 0 \<le> b \<and> b \<le> 255"
  by (auto simp: spec_transform_def Let_def)

text \<open>
  C1. On every report of 8 elements \<^term>\<open>decrypt\<close> with the fixed key raises nothing and
  returns the composition of the five stages of the specification: the permutation by
  \<open>shuffle\<close> (position \<open>shuffle[i]\<close> of stage 1 holds \<open>input[i]\<close>), the XOR with the
  key, the shift over two neighbours taken from the complete stage 2, and the subtraction
  of the nibble-swapped constant modulo 256. The result has 8 elements, each of them in
  \<open>0 .. 255\<close>. Being a function of its argument, the transform is deterministic.
\<close>

theorem decrypt_is_five_stages:
  assumes "length data = 8"
  shows "decrypt KEY data = Inr (spec_transform KEY data)
    \<and> (\<forall>i < 8. spec_stage1 data ! (shuffle ! i) = data ! i)
    \<and> length (spec_transform KEY data) = 8
    \<and> (\<forall>b \<in> set (spec_transform KEY data). 0 \<le> b \<and> b \<le> 255)"
proof -
  from assms obtain a b c d e f g h where "data = [a, b, c, d, e, f, g, h]"
    by (rule length8E)
  then have "decrypt KEY data = Inr (spec_transform KEY data)"
    by (simp only: decrypt_explicit)
  moreover have "\<forall>i < 8. spec_stage1 data ! (shuffle ! i) = data ! i"
    using spec_stage1_positions [OF assms] by (simp add: shuffle_def)
  ultimately show ?thesis
    using spec_transform_length spec_transform_bytes by blast
qed

text \<open>The transform of the block \<open>1, 2, .., 8\<close>.\<close>

theorem decrypt_is_five_stages_witness:
  "length [1, 2, 3, 4, 5, 6, 7, 8 :: int] = 8
    \<and> decrypt KEY [1, 2, 3, 4, 5, 6, 7, 8] = Inr [212, 177, 34, 93, 65, 177, 8, 252]
    \<and> spec_transform KEY [1, 2, 3, 4, 5, 6, 7, 8] = [212, 177, 34, 93, 65, 177, 8, 252]"
proof -
  have len: "length [1, 2, 3, 4, 5, 6, 7, 8 :: int] = 8"
    by simp
  have "spec_transform KEY [1, 2, 3, 4, 5, 6, 7, 8] = [212, 177, 34, 93, 65, 177, 8, 252]"
    by (simp add: spec_transform_def spec_stage1_def spec_stage2_def spec_stage3_def
        spec_swapped_def index_of_def KEY_def upt8 Let_def)
  with decrypt_is_five_stages [OF len] len show ?thesis
    by simp
qed

section \<open>Facts about the table, the cache and one pass of the loop\<close>

lemma lookup_Temperature:
  "map_of MEASUREMENTS 0x42 =
     Some \<lparr>name = ''Temperature'', unit = [CHR 0xB0, CHR ''C''],
           conversion = (\<lambda>x. real_of_int x / 16 - 273.15),
           ha_device_class = ''temperature'', ha_icon = ''mdi:thermometer''\<rparr>"
  by (simp add: MEASUREMENTS_def)

lemma lookup_CO2:
  "map_of MEASUREMENTS 0x50 =
     Some \<lparr>name = ''CO2'', unit = ''ppm'', conversion = (\<lambda>x. real_of_int x),
           ha_device_class = ''carbon_dioxide'', ha_icon = ''mdi:molecule-co2''\<rparr>"
  by (simp add: MEASUREMENTS_def)

lemma lookup_other: "t \<noteq> 0x42 \<Longrightarrow> t \<noteq> 0x50 \<Longrightarrow> map_of MEASUREMENTS t = None"
  by (simp add: MEASUREMENTS_def)

lemma big_endian:
  assumes "is_byte lo"
  shows "(push_bit 8 hi) OR lo = 256 * hi + (lo::int)"
proof -
  have lo: "take_bit 8 lo = lo"
    using assms by (simp add: is_byte_def take_bit_int_eq_self)
  have "push_bit 8 hi AND take_bit 8 lo = 0"
    by (rule bit_eqI) (auto simp: bit_simps)
  then have "push_bit 8 hi AND lo = 0"
    by (simp only: lo)
  then have "push_bit 8 hi + lo = push_bit 8 hi OR lo"
    by (rule disjunctive_add_eq_or)
  then show ?thesis
    by (simp add: push_bit_eq_mult)
qed

lemma candidate_events: "snd (candidate r0) = [] \<or> snd (candidate r0) = [Log DEBUG Encrypted_data]"
  by (simp add: candidate_def)

lemma candidate_length8:
  assumes "length r0 = 8"
  shows "\<exists>r. fst (candidate r0) = Inr r \<and> length r = 8"
proof (cases "r0 ! 4 = 0x0d")
  case True
  with assms show ?thesis by (simp add: candidate_def)
next
  case False
  from assms obtain a b c d e f g h where "r0 = [a, b, c, d, e, f, g, h]"
    by (rule length8E)
  with False show ?thesis
    by (simp add: candidate_def decrypt_explicit spec_transform_length)
qed

lemma iteration_no_reading:
  assumes "reading_of r0 = None"
  shows "iteration s r0 =
    (s, snd (candidate r0) @
        (case fst (candidate r0) of
           Inl e \<Rightarrow> []
         | Inr r \<Rightarrow> if \<not> checksum_ok r then [Log ERROR Checksum_error]
                    else [Log DEBUG (Unknown_key (r ! 0))]),
     case fst (candidate r0) of Inl e \<Rightarrow> Some e | Inr r \<Rightarrow> None)"
  using assms
  by (cases "candidate r0")
     (auto simp: iteration_def reading_of_def Let_def split: sum.splits option.splits if_splits)

lemma iteration_reading:
  assumes "reading_of r0 = Some (n, x)"
  shows "\<exists>u. iteration s r0 =
    (case (if \<not> measurements_to_ignore s > 0 then update s n (Some x) else Inr (s, [])) of
       Inl e \<Rightarrow>
         (s, snd (candidate r0) @ [Log DEBUG (Reading n x u (measurements_to_ignore s > 0))], Some e)
     | Inr (s', evs3) \<Rightarrow>
         (if n = ''CO2'' \<and> measurements_to_ignore s' \<noteq> 0
          then s'\<lparr>measurements_to_ignore := measurements_to_ignore s' - 1\<rparr> else s',
          snd (candidate r0) @ [Log DEBUG (Reading n x u (measurements_to_ignore s > 0))]
            @ evs3 @ [Mqtt_run (1 / 10)],
          None))"
  using assms
  by (cases "candidate r0")
     (auto simp: iteration_def reading_of_def Let_def split: sum.splits option.splits if_splits prod.splits)


lemma update_missing: "map_of (values' s) key = None \<Longrightarrow> update s key value = Inl KeyError"
  by (simp add: update_def)

lemma update_same: "map_of (values' s) key = Some value \<Longrightarrow> update s key value = Inr (s, [])"
  by (simp add: update_def)

lemma update_changed:
  assumes "map_of (values' s) key = Some old" and "old \<noteq> value"
  shows "update s key value =
    Inr (s\<lparr>values' := AList.update key value (values' s)\<rparr>,
         if complete (AList.update key value (values' s))
         then [Publish (mqtt_topic (cfg s)) (AList.update key value (values' s))] else [])"
  using assms by (simp add: update_def complete_def Let_def)

lemma update_keys_present:
  assumes "map_of al k = Some old"
  shows "map fst (AList.update k v al) = map fst al"
proof -
  from assms have "k \<in> dom (map_of al)"
    by (simp add: domI)
  then have "k \<in> fst ` set al"
    by (simp add: dom_map_of_conv_image_fst)
  then show ?thesis
    by (simp add: update_keys)
qed

lemma reading_of_name:
  assumes "reading_of r0 = Some (n, x)"
  shows "n = ''Temperature'' \<or> n = ''CO2''"
  using assms
  by (cases "candidate r0")
     (auto simp: reading_of_def MEASUREMENTS_def split: sum.splits option.splits if_splits)

lemma cache_keys_lookup:
  assumes "cache_keys_ok s" and "n = ''Temperature'' \<or> n = ''CO2''"
  shows "\<exists>old. map_of (values' s) n = Some old"
proof -
  from assms have "n \<in> set (map fst (values' s))"
    by (auto simp: cache_keys_ok_def)
  then have "n \<in> dom (map_of (values' s))"
    by (simp add: dom_map_of_conv_image_fst)
  then show ?thesis
    by (simp add: dom_def)
qed

lemma sum_take3:
  assumes "3 \<le> length (p :: int list)"
  shows "sum_list (take 3 p) = p ! 0 + p ! 1 + p ! 2"
proof -
  from assms obtain a b c rest where "p = a # b # c # rest"
    by (metis Suc_le_length_iff numeral_3_eq_3)
  then show ?thesis by simp
qed

lemma update_events: "update s key value = Inr (s', evs) \<Longrightarrow> Log l m \<notin> set evs"
  by (auto simp: update_def Let_def split: option.splits if_splits)

lemma iteration_accepts:
  assumes "candidate raw = (Inr p, evs)" and "checksum_ok p"
  shows "Log ERROR Checksum_error \<notin> set (fst (snd (iteration s raw)))"
proof (cases "reading_of raw")
  case None
  with assms show ?thesis
    using candidate_events [of raw] by (auto simp: iteration_no_reading)
next
  case (Some nx)
  obtain n x where "nx = (n, x)" by (cases nx)
  with Some iteration_reading [of raw n x s] obtain u where
    it: "iteration s raw =
    (case (if \<not> measurements_to_ignore s > 0 then update s n (Some x) else Inr (s, [])) of
       Inl e \<Rightarrow>
         (s, snd (candidate raw) @ [Log DEBUG (Reading n x u (measurements_to_ignore s > 0))], Some e)
     | Inr (s', evs3) \<Rightarrow>
         (if n = ''CO2'' \<and> measurements_to_ignore s' \<noteq> 0
          then s'\<lparr>measurements_to_ignore := measurements_to_ignore s' - 1\<rparr> else s',
          snd (candidate raw) @ [Log DEBUG (Reading n x u (measurements_to_ignore s > 0))]
            @ evs3 @ [Mqtt_run (1 / 10)],
          None))" by auto
  show ?thesis
    using candidate_events [of raw]
    by (auto simp: it dest: update_events split: sum.splits if_splits)
qed

section \<open>The frame validator\<close>

text \<open>
  C2. On every report of 8 elements the candidate plaintext is the report itself when its
  fifth byte is \<open>0x0d\<close>, and the result of \<^term>\<open>decrypt\<close> with the fixed key otherwise.
  The checksum test is \<open>p[3] = (p[0] + p[1] + p[2]) & 0xFF\<close> on the candidate. A candidate
  that fails it is dropped: the pass logs the checksum error and goes on to the next read
  with the state as it was. A candidate that meets it is never reported as a checksum
  error.
\<close>

theorem frame_validator:
  assumes "length raw = 8"
  shows "\<exists>p. length p = 8
      \<and> candidate raw = (Inr p, if raw ! 4 \<noteq> 0x0d then [Log DEBUG Encrypted_data] else [])
      \<and> (if raw ! 4 \<noteq> 0x0d then decrypt KEY raw = Inr p else p = raw)
      \<and> checksum_ok p = (p ! 3 = (p ! 0 + p ! 1 + p ! 2) AND 0xFF)
      \<and> (\<not> checksum_ok p \<longrightarrow>
            iteration s raw = (s, snd (candidate raw) @ [Log ERROR Checksum_error], None))
      \<and> (checksum_ok p \<longrightarrow> Log ERROR Checksum_error \<notin> set (fst (snd (iteration s raw))))"
proof -
  from candidate_length8 [OF assms] obtain p where p: "fst (candidate raw) = Inr p" "length p = 8"
    by blast
  have c: "candidate raw = (Inr p, if raw ! 4 \<noteq> 0x0d then [Log DEBUG Encrypted_data] else [])"
    using p(1) assms by (auto simp: candidate_def split: if_splits)
  have d: "if raw ! 4 \<noteq> 0x0d then decrypt KEY raw = Inr p else p = raw"
    using p(1) assms by (auto simp: candidate_def split: if_splits)
  have k: "checksum_ok p = (p ! 3 = (p ! 0 + p ! 1 + p ! 2) AND 0xFF)"
    using p(2) by (simp add: checksum_ok_def sum_take3)
  have bad: "\<not> checksum_ok p \<longrightarrow>
      iteration s raw = (s, snd (candidate raw) @ [Log ERROR Checksum_error], None)"
    using c by (simp add: iteration_def)
  have good: "checksum_ok p \<longrightarrow> Log ERROR Checksum_error \<notin> set (fst (snd (iteration s raw)))"
    using c iteration_accepts by blast
  from p(2) c d k bad good show ?thesis
    by blast
qed

text \<open>The validator on a plaintext temperature report.\<close>

theorem frame_validator_witness:
  "length [0x42, 0x11, 0x94, 0xe7, 0x0d, 0, 0, 0 :: int] = 8
   \<and> (\<exists>p. candidate [0x42, 0x11, 0x94, 0xe7, 0x0d, 0, 0, 0] = (Inr p, [])
          \<and> p = [0x42, 0x11, 0x94, 0xe7, 0x0d, 0, 0, 0]
          \<and> checksum_ok p = (p ! 3 = (p ! 0 + p ! 1 + p ! 2) AND 0xFF))"
proof -
  have len: "length [0x42, 0x11, 0x94, 0xe7, 0x0d, 0, 0, 0 :: int] = 8"
    by simp
  from frame_validator [OF len] len show ?thesis
    by auto
qed

section \<open>The measurement decoder\<close>

text \<open>
  C3. The table has exactly the two tags \<open>0x42\<close>, named Temperature, and \<open>0x50\<close>, named
  CO2. For a candidate that passed the checksum: any other tag is logged as unknown and
  the pass ends with the state as it was; for the two tags the reading is
  \<open>v / 16 - 273.15\<close> and \<open>v\<close>, where \<open>v\<close> is \<open>r[1] << 8 | r[2]\<close>, which is
  \<open>256 * r[1] + r[2]\<close> when \<open>r[2]\<close> is a byte. This reading is the one the pass logs
  and, once the counter of ignored measurements is 0, the one it stores under the name.
\<close>

theorem measurement_decoder:
  assumes "candidate r0 = (Inr r, evs)" and "checksum_ok r"
  shows "map (\<lambda>(tag, m). (tag, name m)) MEASUREMENTS = [(0x42, ''Temperature''), (0x50, ''CO2'')]
    \<and> (r ! 0 \<noteq> 0x42 \<and> r ! 0 \<noteq> 0x50 \<longrightarrow>
          reading_of r0 = None
          \<and> iteration s r0 = (s, evs @ [Log DEBUG (Unknown_key (r ! 0))], None))
    \<and> (r ! 0 = 0x42 \<longrightarrow>
          reading_of r0 =
            Some (''Temperature'', real_of_int ((push_bit 8 (r ! 1)) OR (r ! 2)) / 16 - 273.15))
    \<and> (r ! 0 = 0x50 \<longrightarrow>
          reading_of r0 = Some (''CO2'', real_of_int ((push_bit 8 (r ! 1)) OR (r ! 2))))
    \<and> (is_byte (r ! 2) \<longrightarrow> (push_bit 8 (r ! 1)) OR (r ! 2) = 256 * (r ! 1) + r ! 2)
    \<and> (\<forall>n x. reading_of r0 = Some (n, x) \<longrightarrow>
          (\<exists>u. Log DEBUG (Reading n x u (measurements_to_ignore s > 0))
                 \<in> set (fst (snd (iteration s r0))))
          \<and> (measurements_to_ignore s = 0 \<and> cache_keys_ok s \<longrightarrow>
                map_of (values' (fst (iteration s r0))) n = Some (Some x)))"
proof -
  have table: "map (\<lambda>(tag, m). (tag, name m)) MEASUREMENTS
      = [(0x42, ''Temperature''), (0x50, ''CO2'')]"
    by (simp add: MEASUREMENTS_def)
  have unknown: "r ! 0 \<noteq> 0x42 \<and> r ! 0 \<noteq> 0x50 \<longrightarrow>
      reading_of r0 = None
      \<and> iteration s r0 = (s, evs @ [Log DEBUG (Unknown_key (r ! 0))], None)"
    using assms by (simp add: reading_of_def iteration_def lookup_other)
  have temp: "r ! 0 = 0x42 \<longrightarrow>
      reading_of r0 =
        Some (''Temperature'', real_of_int ((push_bit 8 (r ! 1)) OR (r ! 2)) / 16 - 273.15)"
    using assms by (simp add: reading_of_def lookup_Temperature)
  have co2: "r ! 0 = 0x50 \<longrightarrow>
      reading_of r0 = Some (''CO2'', real_of_int ((push_bit 8 (r ! 1)) OR (r ! 2)))"
    using assms by (simp add: reading_of_def lookup_CO2)
  have be: "is_byte (r ! 2) \<longrightarrow> (push_bit 8 (r ! 1)) OR (r ! 2) = 256 * (r ! 1) + r ! 2"
    by (simp add: big_endian)
  have used: "(\<exists>u. Log DEBUG (Reading n x u (measurements_to_ignore s > 0))
                 \<in> set (fst (snd (iteration s r0))))
          \<and> (measurements_to_ignore s = 0 \<and> cache_keys_ok s \<longrightarrow>
                map_of (values' (fst (iteration s r0))) n = Some (Some x))"
    if rd: "reading_of r0 = Some (n, x)" for n x
  proof -
    from iteration_reading [OF rd, of s] obtain u where
      it: "iteration s r0 =
      (case (if \<not> measurements_to_ignore s > 0 then update s n (Some x) else Inr (s, [])) of
         Inl e \<Rightarrow>
           (s, snd (candidate r0) @ [Log DEBUG (Reading n x u (measurements_to_ignore s > 0))], Some e)
       | Inr (s', evs3) \<Rightarrow>
           (if n = ''CO2'' \<and> measurements_to_ignore s' \<noteq> 0
            then s'\<lparr>measurements_to_ignore := measurements_to_ignore s' - 1\<rparr> else s',
            snd (candidate r0) @ [Log DEBUG (Reading n x u (measurements_to_ignore s > 0))]
              @ evs3 @ [Mqtt_run (1 / 10)],
            None))" by auto
    have logged: "Log DEBUG (Reading n x u (measurements_to_ignore s > 0))
        \<in> set (fst (snd (iteration s r0)))"
      by (auto simp: it split: sum.splits)
    have stored: "map_of (values' (fst (iteration s r0))) n = Some (Some x)"
      if z: "measurements_to_ignore s = 0" and ok: "cache_keys_ok s"
    proof -
      from cache_keys_lookup [OF ok reading_of_name [OF rd]] obtain old
        where old: "map_of (values' s) n = Some old" by blast
      show ?thesis
      proof (cases "old = Some x")
        case True
        with old z show ?thesis
          by (simp add: it update_same)
      next
        case False
        with old z show ?thesis
          by (simp add: it update_changed update_conv')
      qed
    qed
    from logged stored show ?thesis by blast
  qed
  from table unknown temp co2 be used show ?thesis
    by blast
qed

text \<open>The decoder on a plaintext temperature report with the raw value \<open>0x1194\<close>.\<close>

theorem measurement_decoder_witness:
  "candidate [0x42, 0x11, 0x94, 0xe7, 0x0d, 0, 0, 0]
     = (Inr [0x42, 0x11, 0x94, 0xe7, 0x0d, 0, 0, 0], [])
   \<and> checksum_ok [0x42, 0x11, 0x94, 0xe7, 0x0d, 0, 0, 0]
   \<and> reading_of [0x42, 0x11, 0x94, 0xe7, 0x0d, 0, 0, 0] = Some (''Temperature'', 81 / 10)"
proof -
  have c: "candidate [0x42, 0x11, 0x94, 0xe7, 0x0d, 0, 0, 0]
     = (Inr [0x42, 0x11, 0x94, 0xe7, 0x0d, 0, 0, 0], [])"
    by (simp add: candidate_def)
  have k: "checksum_ok [0x42, 0x11, 0x94, 0xe7, 0x0d, 0, 0, 0]"
    by (simp add: checksum_ok_def)
  from measurement_decoder [OF c k] c k show ?thesis
    by simp
qed

section \<open>Rounding to binary64\<close>

text \<open>
  The digits of \<^term>\<open>ilog2\<close> bracket their argument, rounding to the nearest integer moves
  by at most one half, and so the nearest double of a rational below \<open>2 ^ k\<close> is within
  \<open>2 ^ (k - 54)\<close> of it.
\<close>

lemma ilog2_bounds:
  assumes "0 < n"
  shows "2 ^ ilog2 n \<le> n \<and> n < 2 ^ Suc (ilog2 n)"
  using assms
proof (induction n rule: ilog2.induct)
  case (1 n)
  show ?case
  proof (cases "n < 2")
    case True
    with "1.prems" have "n = 1" by simp
    then show ?thesis by (simp add: ilog2.simps)
  next
    case False
    then have pos: "0 < n div 2" by simp
    from "1.IH" [OF False pos] have lo: "2 ^ ilog2 (n div 2) \<le> n div 2"
      and hi: "n div 2 < 2 ^ Suc (ilog2 (n div 2))" by simp_all
    from False have eq: "ilog2 n = Suc (ilog2 (n div 2))"
      by (subst ilog2.simps) simp
    from lo have "2 * 2 ^ ilog2 (n div 2) \<le> n" by linarith
    moreover from hi have "n < 2 * 2 ^ Suc (ilog2 (n div 2))" by linarith
    ultimately show ?thesis by (simp add: eq)
  qed
qed

lemma round_half_even_close: "\<bar>of_int (round_half_even q) - q\<bar> \<le> 1 / 2"
proof -
  have "of_int \<lfloor>q\<rfloor> \<le> q" "q < of_int \<lfloor>q\<rfloor> + 1"
    by linarith+
  then show ?thesis
    by (auto simp: round_half_even_def Let_def)
qed

lemma round_half_even_of_int: "round_half_even (of_int n) = n"
  by (simp add: round_half_even_def)

lemma pow2_pos: "0 < pow2 k"
  by (simp add: pow2_def)

lemma pow2_powi: "pow2 k = 2 powi k"
  by (simp add: pow2_def power_int_def power_divide)

lemma pow2_mono: "j \<le> k \<Longrightarrow> pow2 j \<le> pow2 k"
  unfolding pow2_powi by (rule power_int_increasing) simp_all

lemma pow2_add: "pow2 (j + k) = pow2 j * pow2 k"
  unfolding pow2_powi by (simp add: power_int_add)

lemma pow2_nat: "pow2 (int n) = 2 ^ n"
  by (simp add: pow2_def)

lemma float_exponent_less:
  assumes "q \<noteq> 0" and "\<bar>q\<bar> < 2 ^ k"
  shows "float_exponent q < int k"
proof (cases "1 \<le> \<bar>q\<bar>")
  case True
  then have pos: "0 < nat \<lfloor>\<bar>q\<bar>\<rfloor>" by simp
  from ilog2_bounds [OF pos] have "2 ^ ilog2 (nat \<lfloor>\<bar>q\<bar>\<rfloor>) \<le> nat \<lfloor>\<bar>q\<bar>\<rfloor>"
    by simp
  then have "(2 :: rat) ^ ilog2 (nat \<lfloor>\<bar>q\<bar>\<rfloor>) \<le> of_nat (nat \<lfloor>\<bar>q\<bar>\<rfloor>)"
    by (metis of_nat_le_iff of_nat_numeral of_nat_power)
  also have "\<dots> \<le> \<bar>q\<bar>"
    using True by simp
  also note assms(2)
  finally have "ilog2 (nat \<lfloor>\<bar>q\<bar>\<rfloor>) < k"
    by simp
  with True show ?thesis
    by (simp add: float_exponent_def)
next
  case False
  then show ?thesis
    by (simp add: float_exponent_def)
qed

lemma binary64_close:
  assumes "\<bar>q\<bar> < 2 ^ k"
  shows "\<bar>binary64 q - q\<bar> \<le> pow2 (int k - 54)"
proof (cases "q = 0")
  case True
  then show ?thesis
    using pow2_pos [of "int k - 54"] by (simp add: binary64_def)
next
  case False
  define e where "e = max (float_exponent q) (- 1022)"
  define ulp where "ulp = pow2 (e - 52)"
  have ulp: "0 < ulp" by (simp add: ulp_def pow2_pos)
  from float_exponent_less [OF False assms] have "e \<le> int k - 1"
    by (simp add: e_def)
  then have "pow2 (e - 52) \<le> pow2 (int k - 53)"
    by (intro pow2_mono) simp
  then have le: "ulp \<le> pow2 (int k - 53)"
    by (simp add: ulp_def)
  have half: "pow2 (int k - 53) * (1 / 2) = pow2 (int k - 54)"
    using pow2_add [of "int k - 53" "- 1"] by (simp add: pow2_def)
  have b: "binary64 q = of_int (round_half_even (q / ulp)) * ulp"
    using False by (simp add: binary64_def Let_def ulp_def e_def)
  have "binary64 q - q = (of_int (round_half_even (q / ulp)) - q / ulp) * ulp"
    using ulp by (simp add: b algebra_simps)
  then have "\<bar>binary64 q - q\<bar> = \<bar>of_int (round_half_even (q / ulp)) - q / ulp\<bar> * ulp"
    using ulp by (simp add: abs_mult)
  also have "\<dots> \<le> (1 / 2) * ulp"
    using ulp round_half_even_close [of "q / ulp"] by (intro mult_right_mono) simp_all
  also have "\<dots> \<le> (1 / 2) * pow2 (int k - 53)"
    using le by simp
  also have "\<dots> = pow2 (int k - 54)"
    using half by simp
  finally show ?thesis .
qed

lemma binary64_273_15: "binary64 273.15 = 2402652809016115 / 2 ^ 43"
  by code_simp

lemma binary64_sixteenth:
  assumes "\<bar>x\<bar> < 2 ^ 16"
  shows "binary64 (of_int x / 16) = of_int x / 16"
proof (cases "x = 0")
  case True
  then show ?thesis by (simp add: binary64_def)
next
  case False
  define q :: rat where "q = of_int x / 16"
  define e where "e = max (float_exponent q) (- 1022)"
  define n where "n = nat (52 - e)"
  from False have q0: "q \<noteq> 0" by (simp add: q_def)
  from assms have "\<bar>of_int x :: rat\<bar> < 2 ^ 16"
    by (metis of_int_abs of_int_less_numeral_power_cancel_iff)
  then have "\<bar>q\<bar> < 2 ^ 12"
    by (simp add: q_def)
  from float_exponent_less [OF q0 this] have e: "e \<le> 11" "- 1022 \<le> e"
    by (simp_all add: e_def)
  then have n: "4 \<le> n" "int n = 52 - e"
    by (simp_all add: n_def)
  from e have ulp: "pow2 (e - 52) = 1 / 2 ^ n"
    by (simp add: pow2_def n_def)
  from n(1) have split: "(2 :: rat) ^ n = 2 ^ 4 * 2 ^ (n - 4)"
    by (metis le_add_diff_inverse power_add)
  have "q / pow2 (e - 52) = of_int (x * 2 ^ (n - 4))"
    by (simp add: ulp q_def split)
  then have "of_int (round_half_even (q / pow2 (e - 52))) * pow2 (e - 52) = q"
    by (simp only: round_half_even_of_int) (simp add: ulp q_def split)
  with q0 show ?thesis
    by (simp add: binary64_def Let_def e_def q_def)
qed

text \<open>
  On every raw value of 16 bits the division by 16 is exact and raises nothing, and the
  double that line 27 computes is within \<open>2 ^ - 42 + 1 / (5 * 2 ^ 43)\<close>, less than
  \<open>2.6e-13\<close>, of \<open>x / 16 - 273.15\<close>.
\<close>

lemma Temperature_float_close:
  assumes "0 \<le> x" and "x < 2 ^ 16"
  shows "\<exists>r. Temperature_float x = Inr r
    \<and> \<bar>r - (of_int x / 16 - 273.15)\<bar> \<le> 1 / 2 ^ 42 + 1 / (5 * 2 ^ 43)"
proof -
  define q :: rat where "q = of_int x / 16"
  define c :: rat where "c = 2402652809016115 / 2 ^ 43"
  from assms have ax: "\<bar>x\<bar> < 2 ^ 16" by simp
  have q: "binary64 (of_int x / 16) = q"
    using binary64_sixteenth [OF ax] by (simp add: q_def)
  from assms have "0 \<le> (of_int x :: rat)" "(of_int x :: rat) < 2 ^ 16"
    by simp_all
  then have qr: "0 \<le> q" "q < 2 ^ 12"
    by (simp_all add: q_def)
  then have no: "\<not> 2 ^ 1024 \<le> \<bar>q\<bar>"
    by simp
  have "273 < c" "c < 274"
    by (simp_all add: c_def)
  with qr have "\<bar>q - c\<bar> < 2 ^ 12"
    by simp
  from binary64_close [OF this] have r: "\<bar>binary64 (q - c) - (q - c)\<bar> \<le> 1 / 2 ^ 42"
    by (simp add: pow2_def)
  have cc: "\<bar>273.15 - c\<bar> = 1 / (5 * 2 ^ 43)"
    by (simp add: c_def)
  have "\<bar>binary64 (q - c) - (q - 273.15)\<bar>
      \<le> \<bar>binary64 (q - c) - (q - c)\<bar> + \<bar>273.15 - c\<bar>"
    by linarith
  with r cc have "\<bar>binary64 (q - c) - (q - 273.15)\<bar> \<le> 1 / 2 ^ 42 + 1 / (5 * 2 ^ 43)"
    by linarith
  moreover have "Temperature_float x = Inr (binary64 (q - c))"
    unfolding Temperature_float_def Let_def q binary64_273_15 c_def [symmetric]
    using no by (simp only: if_False)
  ultimately show ?thesis
    by (simp add: q_def)
qed

section \<open>The two conversions at the sample values\<close>

text \<open>
  C10, as stated, fails: the temperature conversion of the raw value \<open>0x1194 = 4500\<close> is
  not within one half of \<open>8.85\<close>.
\<close>

theorem conversion_examples_counterexample:
  "\<not> \<bar>conversion (the (map_of MEASUREMENTS 0x42)) 0x1194 - 8.85\<bar> < 1 / 2"
  by (simp add: lookup_Temperature)

text \<open>
  C10, amended. The temperature conversion of the raw value \<open>0x1194 = 4500\<close> yields the
  double \<open>71248353479885 / 2 ^ 43 = 8.100000000000023...\<close>, which is \<open>1 / (5 * 2 ^ 43)\<close>,
  about \<open>2.3e-14\<close>, above \<open>4500 / 16 - 273.15 = 8.1\<close>, the value of the conversion in exact
  arithmetic. The CO2 conversion of \<open>0x0258 = 600\<close> is \<open>600\<close>, also as the reading decoded
  from the plaintext report that carries this raw value.
\<close>

theorem conversion_examples:
  "Temperature_float 0x1194 = Inr (71248353479885 / 2 ^ 43)
    \<and> \<bar>71248353479885 / 2 ^ 43 - (8.1 :: rat)\<bar> = 1 / (5 * 2 ^ 43)
    \<and> \<bar>of_rat (71248353479885 / 2 ^ 43) - conversion (the (map_of MEASUREMENTS 0x42)) 0x1194\<bar>
        = 1 / (5 * 2 ^ 43)
    \<and> conversion (the (map_of MEASUREMENTS 0x50)) 0x0258 = 600
    \<and> reading_of [0x50, 0x02, 0x58, 0xaa, 0x0d, 0, 0, 0] = Some (''CO2'', 600)"
proof -
  have double: "Temperature_float 0x1194 = Inr (71248353479885 / 2 ^ 43)"
    by code_simp
  have gap: "\<bar>71248353479885 / 2 ^ 43 - (8.1 :: rat)\<bar> = 1 / (5 * 2 ^ 43)"
    by simp
  have field: "\<bar>of_rat (71248353479885 / 2 ^ 43)
      - conversion (the (map_of MEASUREMENTS 0x42)) 0x1194\<bar> = 1 / (5 * 2 ^ 43)"
    by (simp add: lookup_Temperature of_rat_divide)
  have co2: "conversion (the (map_of MEASUREMENTS 0x50)) 0x0258 = 600"
    by (simp add: lookup_CO2)
  have frame: "reading_of [0x50, 0x02, 0x58, 0xaa, 0x0d, 0, 0, 0] = Some (''CO2'', 600)"
    by (simp add: lookup_CO2 reading_of_def candidate_def checksum_ok_def)
  from double gap field co2 frame show ?thesis
    by (intro conjI)
qed

section \<open>Traces and the passes of the loop\<close>

lemma published_append: "published (xs @ ys) = published xs @ published ys"
  by (induction xs rule: published.induct) simp_all

lemma pumps_append: "pumps (xs @ ys) = pumps xs + pumps ys"
  by (simp add: pumps_def)

lemma closes_append: "closes (xs @ ys) = closes xs + closes ys"
  by (simp add: closes_def)

lemma pumps_simps:
  "pumps [] = 0" "pumps (e # evs) = (if is_pump e then 1 else 0) + pumps evs"
  by (simp_all add: pumps_def)

lemma closes_simps:
  "closes [] = 0" "closes (e # evs) = (if e = Close then 1 else 0) + closes evs"
  by (simp_all add: closes_def)

lemma candidate_quiet:
  "published (snd (candidate r0)) = []" "pumps (snd (candidate r0)) = 0"
  "closes (snd (candidate r0)) = 0"
  using candidate_events [of r0] by (auto simp: pumps_simps closes_simps)

lemma discovery_quiet:
  "closes (discovery s) = 0" "published (discovery s) = []"
  "pumps (discovery s) = (if discovery_prefix (cfg s) = [] then 0 else 1)"
  by (simp_all add: discovery_def MEASUREMENTS_def closes_simps pumps_simps Let_def)

lemma complete_iff: "complete snapshot \<longleftrightarrow> None \<notin> snd ` set snapshot"
  by (auto simp: complete_def list_ex_iff)

lemma update_values_subset:
  "snd ` set (AList.update k v al) \<subseteq> insert v (snd ` set al)"
  by (induction al) auto

lemma complete_update:
  assumes "complete al"
  shows "complete (AList.update k (Some v) al)"
  using assms update_values_subset [of k "Some v" al]
  by (auto simp: complete_iff)

lemma update_result:
  assumes "update s key value = Inr (s', evs)"
  shows "cfg s' = cfg s \<and> measurements_to_ignore s' = measurements_to_ignore s
    \<and> map fst (values' s') = map fst (values' s)
    \<and> (evs = [] \<or> evs = [Publish (mqtt_topic (cfg s)) (values' s')] \<and> complete (values' s'))"
proof (cases "map_of (values' s) key")
  case None
  with assms show ?thesis by (simp add: update_missing)
next
  case (Some old)
  show ?thesis
  proof (cases "old = value")
    case True
    with Some assms show ?thesis by (auto simp: update_same)
  next
    case False
    with Some assms show ?thesis
      by (auto simp: update_changed update_keys_present split: if_splits)
  qed
qed

text \<open>The four ways through one pass of the loop.\<close>

lemma iteration_cases:
  obtains
    (discarded) evs e where "reading_of r0 = None" "iteration s r0 = (s, evs, e)"
      "published evs = []" "pumps evs = 0" "closes evs = 0"
  | (ignored) n x evs where "reading_of r0 = Some (n, x)" "measurements_to_ignore s > 0"
      "iteration s r0 =
         (if n = ''CO2'' then s\<lparr>measurements_to_ignore := measurements_to_ignore s - 1\<rparr> else s,
          evs, None)"
      "published evs = []" "pumps evs = 1" "closes evs = 0" "last evs = Mqtt_run (1 / 10)"
  | (raised) n x evs e where "reading_of r0 = Some (n, x)" "\<not> measurements_to_ignore s > 0"
      "update s n (Some x) = Inl e" "iteration s r0 = (s, evs, Some e)"
      "published evs = []" "pumps evs = 0" "closes evs = 0"
  | (admitted) n x s1 evs3 evs where "reading_of r0 = Some (n, x)"
      "\<not> measurements_to_ignore s > 0" "update s n (Some x) = Inr (s1, evs3)"
      "iteration s r0 =
         (if n = ''CO2'' \<and> measurements_to_ignore s \<noteq> 0
          then s1\<lparr>measurements_to_ignore := measurements_to_ignore s - 1\<rparr> else s1,
          evs, None)"
      "published evs = published evs3" "pumps evs = 1" "closes evs = 0"
      "last evs = Mqtt_run (1 / 10)"
proof (cases "reading_of r0")
  case None
  show ?thesis
    by (rule discarded [OF None iteration_no_reading [OF None]])
       (auto simp: published_append pumps_append closes_append candidate_quiet pumps_simps closes_simps
          split: sum.splits)
next
  case (Some nx)
  obtain n x where nx: "nx = (n, x)" by (cases nx)
  with Some have rd: "reading_of r0 = Some (n, x)" by simp
  from iteration_reading [OF rd, of s] obtain u where
    it: "iteration s r0 =
      (case (if \<not> measurements_to_ignore s > 0 then update s n (Some x) else Inr (s, [])) of
         Inl e \<Rightarrow>
           (s, snd (candidate r0) @ [Log DEBUG (Reading n x u (measurements_to_ignore s > 0))], Some e)
       | Inr (s', evs3) \<Rightarrow>
           (if n = ''CO2'' \<and> measurements_to_ignore s' \<noteq> 0
            then s'\<lparr>measurements_to_ignore := measurements_to_ignore s' - 1\<rparr> else s',
            snd (candidate r0) @ [Log DEBUG (Reading n x u (measurements_to_ignore s > 0))]
              @ evs3 @ [Mqtt_run (1 / 10)],
            None))" by auto
  define pre where "pre = snd (candidate r0)
      @ [Log DEBUG (Reading n x u (measurements_to_ignore s > 0))]"
  have quiet: "published pre = []" "pumps pre = 0" "closes pre = 0"
    by (simp_all add: pre_def published_append pumps_append closes_append candidate_quiet
        pumps_simps closes_simps)
  show ?thesis
  proof (cases "measurements_to_ignore s > 0")
    case True
    have a: "iteration s r0 =
        (if n = ''CO2'' then s\<lparr>measurements_to_ignore := measurements_to_ignore s - 1\<rparr> else s,
         pre @ [Mqtt_run (1 / 10)], None)"
      using True by (simp add: it pre_def)
    show ?thesis
      by (rule ignored [OF rd True a])
         (simp_all add: published_append pumps_append closes_append quiet pumps_simps closes_simps)
  next
    case False
    show ?thesis
    proof (cases "update s n (Some x)")
      case (Inl e)
      have a: "iteration s r0 = (s, pre, Some e)"
        using False Inl by (simp add: it pre_def)
      show ?thesis
        by (rule raised [OF rd False Inl a quiet])
    next
      case (Inr p)
      obtain s1 evs3 where p: "p = (s1, evs3)" by (cases p)
      with Inr have upd: "update s n (Some x) = Inr (s1, evs3)" by simp
      from update_result [OF upd]
      have u: "measurements_to_ignore s1 = measurements_to_ignore s"
        "evs3 = [] \<or> evs3 = [Publish (mqtt_topic (cfg s)) (values' s1)]"
        by auto
      have a: "iteration s r0 =
         (if n = ''CO2'' \<and> measurements_to_ignore s \<noteq> 0
          then s1\<lparr>measurements_to_ignore := measurements_to_ignore s - 1\<rparr> else s1,
          pre @ evs3 @ [Mqtt_run (1 / 10)], None)"
        using False upd u(1) by (simp add: it pre_def)
      have b: "published (pre @ evs3 @ [Mqtt_run (1 / 10)]) = published evs3"
        by (simp add: published_append quiet)
      have c: "pumps (pre @ evs3 @ [Mqtt_run (1 / 10)]) = 1"
        using u(2) by (auto simp: pumps_append quiet pumps_simps)
      have d: "closes (pre @ evs3 @ [Mqtt_run (1 / 10)]) = 0"
        using u(2) by (auto simp: closes_append quiet closes_simps)
      show ?thesis
        by (rule admitted [OF rd False upd a b c d]) simp
    qed
  qed
qed

lemma iteration_keeps_keys:
  assumes "iteration s r0 = (s', evs, e)" and "cache_keys_ok s"
  shows "cache_keys_ok s'"
proof (cases rule: iteration_cases [of r0 s])
  case (admitted n x s1 evs3 evs)
  from update_result [OF admitted(3)] assms admitted(4) show ?thesis
    by (auto simp: cache_keys_ok_def split: if_splits)
qed (use assms in \<open>auto simp: cache_keys_ok_def split: if_splits\<close>)

lemma iteration_no_exception:
  assumes "length r0 = 8" and "cache_keys_ok s"
  shows "snd (snd (iteration s r0)) = None"
proof (cases rule: iteration_cases [of r0 s])
  case (discarded evs e)
  from candidate_length8 [OF assms(1)] obtain p where "fst (candidate r0) = Inr p"
    by blast
  then show ?thesis
    by (simp add: iteration_no_reading [OF discarded(1)])
next
  case (raised n x evs e)
  from cache_keys_lookup [OF assms(2) reading_of_name [OF raised(1)]] obtain old
    where old: "map_of (values' s) n = Some old" by blast
  have "\<exists>s' evs. update s n (Some x) = Inr (s', evs)"
    by (cases "old = Some x") (simp_all add: old update_same update_changed)
  with raised(3) show ?thesis by simp
qed simp_all


lemma iteration_summary:
  assumes "length r0 = 8" and "cache_keys_ok s"
  shows "\<exists>s' evs. iteration s r0 = (s', evs, None) \<and> cache_keys_ok s' \<and> cfg s' = cfg s
    \<and> measurements_to_ignore s' =
       (if map_option fst (reading_of r0) = Some ''CO2'' \<and> measurements_to_ignore s \<noteq> 0
        then measurements_to_ignore s - 1 else measurements_to_ignore s)
    \<and> pumps evs = (if reading_of r0 = None then 0 else 1) \<and> closes evs = 0
    \<and> (\<forall>snap \<in> set (published evs). complete snap \<and> snap = values' s')
    \<and> (measurements_to_ignore s > 0 \<longrightarrow> values' s' = values' s \<and> published evs = [])"
proof -
  obtain s' evs e where it: "iteration s r0 = (s', evs, e)"
    by (cases "iteration s r0") auto
  with iteration_no_exception [OF assms] have e: "e = None" by simp
  have keys: "cache_keys_ok s'"
    using it assms(2) by (rule iteration_keeps_keys)
  have rest: "cfg s' = cfg s
    \<and> measurements_to_ignore s' =
       (if map_option fst (reading_of r0) = Some ''CO2'' \<and> measurements_to_ignore s \<noteq> 0
        then measurements_to_ignore s - 1 else measurements_to_ignore s)
    \<and> pumps evs = (if reading_of r0 = None then 0 else 1) \<and> closes evs = 0
    \<and> (\<forall>snap \<in> set (published evs). complete snap \<and> snap = values' s')
    \<and> (measurements_to_ignore s > 0 \<longrightarrow> values' s' = values' s \<and> published evs = [])"
  proof (cases rule: iteration_cases [of r0 s])
    case (discarded evs' e')
    with it show ?thesis by simp
  next
    case (ignored n x evs')
    with it show ?thesis by (auto split: if_splits)
  next
    case (raised n x evs' e')
    with it e show ?thesis by simp
  next
    case (admitted n x s1 evs3 evs')
    from update_result [OF admitted(3)]
    have u: "cfg s1 = cfg s" "measurements_to_ignore s1 = measurements_to_ignore s"
      "evs3 = [] \<or> evs3 = [Publish (mqtt_topic (cfg s)) (values' s1)] \<and> complete (values' s1)"
      by auto
    from admitted it u show ?thesis by (auto split: if_splits)
  qed
  from it e keys rest show ?thesis by simp
qed

lemma readings_named_Cons:
  "readings_named n (r # frames) =
     (if map_option fst (reading_of r) = Some n then 1 else 0) + readings_named n frames"
  by (simp add: readings_named_def)

lemma run_frames:
  assumes "\<forall>r \<in> set frames. length r = 8" and "cache_keys_ok s"
  shows "\<exists>s' evs. run_loop s (map Read_data frames) = (s', evs, Blocked)
    \<and> cache_keys_ok s' \<and> cfg s' = cfg s
    \<and> (0 \<le> measurements_to_ignore s \<longrightarrow>
          measurements_to_ignore s'
            = max 0 (measurements_to_ignore s - int (readings_named ''CO2'' frames)))
    \<and> pumps evs = length (filter (\<lambda>r. reading_of r \<noteq> None) frames)
    \<and> closes evs = 0
    \<and> (\<forall>snap \<in> set (published evs).
          complete snap \<and> map fst snap = [''Temperature'', ''CO2''])
    \<and> (int (readings_named ''CO2'' frames) < measurements_to_ignore s \<longrightarrow>
          values' s' = values' s \<and> published evs = [])"
  using assms
proof (induction frames arbitrary: s)
  case Nil
  then show ?case
    by (simp add: readings_named_def pumps_simps closes_simps)
next
  case (Cons r frames)
  from Cons.prems have len: "length r = 8" and lens: "\<forall>r \<in> set frames. length r = 8"
    by simp_all
  from len have ne: "r \<noteq> []" by auto
  obtain s1 evs1 where it: "iteration s r = (s1, evs1, None)" and k1: "cache_keys_ok s1"
    and c1: "cfg s1 = cfg s"
    and m1: "measurements_to_ignore s1 =
       (if map_option fst (reading_of r) = Some ''CO2'' \<and> measurements_to_ignore s \<noteq> 0
        then measurements_to_ignore s - 1 else measurements_to_ignore s)"
    and p1: "pumps evs1 = (if reading_of r = None then 0 else 1)" and cl1: "closes evs1 = 0"
    and pub1: "\<forall>snap \<in> set (published evs1). complete snap \<and> snap = values' s1"
    and ign1: "measurements_to_ignore s > 0 \<longrightarrow> values' s1 = values' s \<and> published evs1 = []"
    using iteration_summary [OF len Cons.prems(2)] by (elim exE conjE)
  from m1 have nn1: "0 \<le> measurements_to_ignore s1" if "0 \<le> measurements_to_ignore s"
    using that by (auto split: if_splits)
  from Cons.IH [OF lens k1] obtain s2 evs2 where
    run2: "run_loop s1 (map Read_data frames) = (s2, evs2, Blocked)" and k2: "cache_keys_ok s2"
    and c2: "cfg s2 = cfg s1"
    and m2: "0 \<le> measurements_to_ignore s1 \<longrightarrow>
        measurements_to_ignore s2
          = max 0 (measurements_to_ignore s1 - int (readings_named ''CO2'' frames))"
    and p2: "pumps evs2 = length (filter (\<lambda>r. reading_of r \<noteq> None) frames)"
    and cl2: "closes evs2 = 0"
    and pub2: "\<forall>snap \<in> set (published evs2).
          complete snap \<and> map fst snap = [''Temperature'', ''CO2'']"
    and ign2: "int (readings_named ''CO2'' frames) < measurements_to_ignore s1 \<longrightarrow>
          values' s2 = values' s1 \<and> published evs2 = []"
    by (elim exE conjE)
  have run: "run_loop s (map Read_data (r # frames)) = (s2, evs1 @ evs2, Blocked)"
    using ne it run2 by simp
  have m: "0 \<le> measurements_to_ignore s \<longrightarrow>
      measurements_to_ignore s2
        = max 0 (measurements_to_ignore s - int (readings_named ''CO2'' (r # frames)))"
    using m1 m2 nn1 by (auto simp: readings_named_Cons)
  have p: "pumps (evs1 @ evs2) = length (filter (\<lambda>r. reading_of r \<noteq> None) (r # frames))"
    using p1 p2 by (simp add: pumps_append)
  have cl: "closes (evs1 @ evs2) = 0"
    using cl1 cl2 by (simp add: closes_append)
  have pub: "\<forall>snap \<in> set (published (evs1 @ evs2)).
          complete snap \<and> map fst snap = [''Temperature'', ''CO2'']"
    using pub1 pub2 k1 by (auto simp: published_append cache_keys_ok_def)
  have ign: "int (readings_named ''CO2'' (r # frames)) < measurements_to_ignore s \<longrightarrow>
          values' s2 = values' s \<and> published (evs1 @ evs2) = []"
    using ign1 ign2 m1 by (auto simp: readings_named_Cons published_append split: if_splits)
  from run k2 c1 c2 m p cl pub ign show ?case
    by simp
qed

lemma init_state:
  "fst (init c) = \<lparr>cfg = c, measurements_to_ignore = 5,
                    values' = [(''Temperature'', None), (''CO2'', None)]\<rparr>"
  by (simp add: init_def IGNORE_N_MEASUREMENTS_def MEASUREMENTS_def)

lemma init_keys_ok: "cache_keys_ok (fst (init c))"
  by (simp add: init_state cache_keys_ok_def)

lemma update_raises: "update s key value = Inl e \<Longrightarrow> map_of (values' s) key = None"
  by (auto simp: update_def Let_def split: option.splits if_splits)

lemma reading_of_None_iff:
  assumes "length r = 8"
  shows "reading_of r = None \<longleftrightarrow>
    (\<exists>p. fst (candidate r) = Inr p \<and> (\<not> checksum_ok p \<or> map_of MEASUREMENTS (p ! 0) = None))"
proof -
  from candidate_length8 [OF assms] obtain p where "fst (candidate r) = Inr p"
    by blast
  then show ?thesis
    by (cases "candidate r") (auto simp: reading_of_def split: option.splits)
qed

section \<open>The snapshot cache\<close>

text \<open>
  C4. For a name the cache holds: \<^term>\<open>update\<close> with the value already stored changes
  nothing and publishes nothing. With another value it stores the value, keeps the keys,
  and publishes the whole mapping exactly when no entry of it is \<^verbatim>\<open>None\<close>. Hence every
  snapshot that \<^term>\<open>update\<close> publishes is the cache itself and has no \<^verbatim>\<open>None\<close> entry;
  once the cache is complete, every change of a reading publishes the whole mapping; and
  every snapshot published in the course of a run of the loop over reports of 8 elements
  is complete and has the two fields Temperature and CO2.
\<close>

theorem snapshot_cache_update:
  assumes "map_of (values' s) key = Some old"
  shows "(old = value \<longrightarrow> update s key value = Inr (s, []))
    \<and> (old \<noteq> value \<longrightarrow>
          update s key value =
            Inr (s\<lparr>values' := AList.update key value (values' s)\<rparr>,
                 if complete (AList.update key value (values' s))
                 then [Publish (mqtt_topic (cfg s)) (AList.update key value (values' s))]
                 else [])
          \<and> map_of (AList.update key value (values' s)) = (map_of (values' s))(key \<mapsto> value)
          \<and> map fst (AList.update key value (values' s)) = map fst (values' s))
    \<and> (\<forall>s' evs snap. update s key value = Inr (s', evs) \<and> snap \<in> set (published evs) \<longrightarrow>
          snap = values' s' \<and> None \<notin> snd ` set snap)
    \<and> (complete (values' s) \<and> old \<noteq> Some v \<longrightarrow>
          (\<exists>s'. update s key (Some v) = Inr (s', [Publish (mqtt_topic (cfg s)) (values' s')])
             \<and> map_of (values' s') = (map_of (values' s))(key \<mapsto> Some v)
             \<and> map fst (values' s') = map fst (values' s)
             \<and> None \<notin> snd ` set (values' s')))
    \<and> (cache_keys_ok s \<and> (\<forall>r \<in> set frames. length r = 8) \<longrightarrow>
          (\<forall>snap \<in> set (published (fst (snd (run_loop s (map Read_data frames))))).
             None \<notin> snd ` set snap \<and> map fst snap = [''Temperature'', ''CO2'']))"
proof -
  have same: "old = value \<longrightarrow> update s key value = Inr (s, [])"
    using assms by (simp add: update_same)
  have changed: "old \<noteq> value \<longrightarrow>
          update s key value =
            Inr (s\<lparr>values' := AList.update key value (values' s)\<rparr>,
                 if complete (AList.update key value (values' s))
                 then [Publish (mqtt_topic (cfg s)) (AList.update key value (values' s))]
                 else [])
          \<and> map_of (AList.update key value (values' s)) = (map_of (values' s))(key \<mapsto> value)
          \<and> map fst (AList.update key value (values' s)) = map fst (values' s)"
    using assms by (simp add: update_changed update_conv' update_keys_present)
  have no_partial: "snap = values' s' \<and> None \<notin> snd ` set snap"
    if "update s key value = Inr (s', evs)" and "snap \<in> set (published evs)" for s' evs snap
    using update_result [OF that(1)] that(2) by (auto simp: complete_iff)
  have re_emit: "\<exists>s'. update s key (Some v) = Inr (s', [Publish (mqtt_topic (cfg s)) (values' s')])
             \<and> map_of (values' s') = (map_of (values' s))(key \<mapsto> Some v)
             \<and> map fst (values' s') = map fst (values' s)
             \<and> None \<notin> snd ` set (values' s')"
    if "complete (values' s)" and "old \<noteq> Some v"
    using assms that complete_update [OF that(1), of key v]
    by (simp add: update_changed update_conv' update_keys_present complete_iff)
  have in_run: "\<forall>snap \<in> set (published (fst (snd (run_loop s (map Read_data frames))))).
             None \<notin> snd ` set snap \<and> map fst snap = [''Temperature'', ''CO2'']"
    if "cache_keys_ok s" and "\<forall>r \<in> set frames. length r = 8"
    using run_frames [OF that(2) that(1)] by (auto simp: complete_iff)
  from same changed no_partial re_emit in_run show ?thesis
    by blast
qed

text \<open>The CO2 reading that completes a cache holding a temperature.\<close>

theorem snapshot_cache_update_witness:
  "map_of (values' \<lparr>cfg = \<lparr>discovery_prefix = ''ha'', mqtt_topic = ''co2'', friendly_name = ''desk''\<rparr>,
                    measurements_to_ignore = 0,
                    values' = [(''Temperature'', Some (81 / 10)), (''CO2'', None)]\<rparr>) ''CO2''
     = Some None
   \<and> update \<lparr>cfg = \<lparr>discovery_prefix = ''ha'', mqtt_topic = ''co2'', friendly_name = ''desk''\<rparr>,
              measurements_to_ignore = 0,
              values' = [(''Temperature'', Some (81 / 10)), (''CO2'', None)]\<rparr> ''CO2'' (Some 600)
     = Inr (\<lparr>cfg = \<lparr>discovery_prefix = ''ha'', mqtt_topic = ''co2'', friendly_name = ''desk''\<rparr>,
             measurements_to_ignore = 0,
             values' = [(''Temperature'', Some (81 / 10)), (''CO2'', Some 600)]\<rparr>,
            [Publish ''co2'' [(''Temperature'', Some (81 / 10)), (''CO2'', Some 600)]])"
proof -
  have h: "map_of (values' \<lparr>cfg = \<lparr>discovery_prefix = ''ha'', mqtt_topic = ''co2'', friendly_name = ''desk''\<rparr>,
                    measurements_to_ignore = 0,
                    values' = [(''Temperature'', Some (81 / 10)), (''CO2'', None)]\<rparr>) ''CO2''
     = Some None"
    by simp
  from snapshot_cache_update [OF h, of "Some 600" 600 "[]"] h show ?thesis
    by (simp add: complete_def)
qed

section \<open>The calibration gate\<close>

text \<open>
  C5. A session starts with the counter at 5. In a pass that starts with the counter above
  0 the cache is left as it was and nothing is published, whatever the reading; the
  counter goes down by one when the reading decoded is CO2, and stays otherwise. The
  counter never goes below 0. In a pass that starts with the counter at 0 the counter
  stays 0 and the reading is stored under its name. Over the reports read since the start
  of a session the counter is 5 minus the number of CO2 readings decoded, and 0 from the
  fifth on; as long as fewer than 5 CO2 readings were decoded the cache is empty and
  nothing was published.
\<close>

theorem calibration_gate:
  "measurements_to_ignore (fst (init c)) = 5
   \<and> (measurements_to_ignore s > 0 \<and> iteration s r = (s', evs, e) \<longrightarrow>
         values' s' = values' s \<and> published evs = []
         \<and> measurements_to_ignore s' =
             (if map_option fst (reading_of r) = Some ''CO2''
              then measurements_to_ignore s - 1 else measurements_to_ignore s))
   \<and> (0 \<le> measurements_to_ignore s \<and> iteration s r = (s', evs, e) \<longrightarrow>
         0 \<le> measurements_to_ignore s')
   \<and> (measurements_to_ignore s = 0 \<and> iteration s r = (s', evs, e) \<longrightarrow>
         measurements_to_ignore s' = 0
         \<and> (\<forall>n x. reading_of r = Some (n, x) \<and> cache_keys_ok s \<longrightarrow>
               map_of (values' s') n = Some (Some x)))
   \<and> ((\<forall>r \<in> set frames. length r = 8) \<longrightarrow>
         measurements_to_ignore (fst (run_loop (fst (init c)) (map Read_data frames)))
           = max 0 (5 - int (readings_named ''CO2'' frames)))
   \<and> ((\<forall>r \<in> set frames. length r = 8) \<and> readings_named ''CO2'' frames < 5 \<longrightarrow>
         values' (fst (run_loop (fst (init c)) (map Read_data frames)))
           = [(''Temperature'', None), (''CO2'', None)]
         \<and> published (fst (snd (run_loop (fst (init c)) (map Read_data frames)))) = [])"
proof -
  have start: "measurements_to_ignore (fst (init c)) = 5"
    by (simp add: init_state)
  have ignoring: "values' s' = values' s \<and> published evs = []
         \<and> measurements_to_ignore s' =
             (if map_option fst (reading_of r) = Some ''CO2''
              then measurements_to_ignore s - 1 else measurements_to_ignore s)"
    if "measurements_to_ignore s > 0" and "iteration s r = (s', evs, e)"
    using that by (cases rule: iteration_cases [of r s]) (auto split: if_splits)
  have floor: "0 \<le> measurements_to_ignore s'"
    if "0 \<le> measurements_to_ignore s" and it: "iteration s r = (s', evs, e)"
  proof (cases rule: iteration_cases [of r s])
    case (admitted n x s1 evs3 evs')
    from update_result [OF admitted(3)] admitted(2,4) that show ?thesis
      by (auto split: if_splits)
  qed (use that in \<open>auto split: if_splits\<close>)
  have admitting: "measurements_to_ignore s' = 0
         \<and> (\<forall>n x. reading_of r = Some (n, x) \<and> cache_keys_ok s \<longrightarrow>
               map_of (values' s') n = Some (Some x))"
    if z: "measurements_to_ignore s = 0" and it: "iteration s r = (s', evs, e)"
  proof (cases rule: iteration_cases [of r s])
    case (discarded evs' e')
    with that show ?thesis by simp
  next
    case (ignored n x evs')
    with z show ?thesis by simp
  next
    case (raised n x evs' e')
    from cache_keys_lookup [OF _ reading_of_name [OF raised(1)], of s]
      update_raises [OF raised(3)]
    have "\<not> cache_keys_ok s"
      by auto
    with raised it z show ?thesis by simp
  next
    case (admitted n x s1 evs3 evs')
    from update_result [OF admitted(3)]
    have m: "measurements_to_ignore s1 = measurements_to_ignore s" by simp
    have st: "map_of (values' s1) n = Some (Some x)" if "cache_keys_ok s"
    proof -
      from cache_keys_lookup [OF that reading_of_name [OF admitted(1)]] obtain old
        where old: "map_of (values' s) n = Some old" by blast
      with admitted(3) show ?thesis
        by (cases "old = Some x") (auto simp: update_same update_changed update_conv')
    qed
    from admitted(1,4) it z m st show ?thesis by auto
  qed
  have counting: "measurements_to_ignore (fst (run_loop (fst (init c)) (map Read_data frames)))
           = max 0 (5 - int (readings_named ''CO2'' frames))"
    if "\<forall>r \<in> set frames. length r = 8"
    using run_frames [OF that init_keys_ok [of c]] by (auto simp: start)
  have window: "values' (fst (run_loop (fst (init c)) (map Read_data frames)))
           = [(''Temperature'', None), (''CO2'', None)]
         \<and> published (fst (snd (run_loop (fst (init c)) (map Read_data frames)))) = []"
    if "\<forall>r \<in> set frames. length r = 8" and "readings_named ''CO2'' frames < 5"
    using run_frames [OF that(1) init_keys_ok [of c]] that(2) by (auto simp: init_state)
  from start ignoring floor admitting counting window show ?thesis
    by blast
qed

text \<open>The first CO2 reading of a session takes the counter from 5 to 4.\<close>

theorem calibration_gate_witness:
  "measurements_to_ignore
     (fst (init \<lparr>discovery_prefix = ''ha'', mqtt_topic = ''co2'', friendly_name = ''desk''\<rparr>)) = 5
   \<and> length [0x50, 0x02, 0x58, 0xaa, 0x0d, 0, 0, 0 :: int] = 8
   \<and> measurements_to_ignore
       (fst (run_loop (fst (init \<lparr>discovery_prefix = ''ha'', mqtt_topic = ''co2'', friendly_name = ''desk''\<rparr>))
              (map Read_data [[0x50, 0x02, 0x58, 0xaa, 0x0d, 0, 0, 0]]))) = 4
   \<and> values'
       (fst (run_loop (fst (init \<lparr>discovery_prefix = ''ha'', mqtt_topic = ''co2'', friendly_name = ''desk''\<rparr>))
              (map Read_data [[0x50, 0x02, 0x58, 0xaa, 0x0d, 0, 0, 0]])))
       = [(''Temperature'', None), (''CO2'', None)]"
proof -
  have rd: "reading_of [0x50, 0x02, 0x58, 0xaa, 0x0d, 0, 0, 0] = Some (''CO2'', 600)"
    by (simp add: reading_of_def candidate_def checksum_ok_def lookup_CO2)
  have n: "readings_named ''CO2'' [[0x50, 0x02, 0x58, 0xaa, 0x0d, 0, 0, 0]] = 1"
    by (simp add: readings_named_def rd)
  from calibration_gate
    [of "\<lparr>discovery_prefix = ''ha'', mqtt_topic = ''co2'', friendly_name = ''desk''\<rparr>"
        _ _ _ _ _ "[[0x50, 0x02, 0x58, 0xaa, 0x0d, 0, 0, 0]]"] n
  show ?thesis
    by simp
qed

section \<open>The classes of errors\<close>

text \<open>
  C7. A report of 8 elements yields no reading exactly when its candidate fails the
  checksum or carries a tag the table lacks. The pass over such a report leaves the
  object as it was (the cache and the counter included), publishes nothing, and the loop
  goes on with the next read. A read that raises an OS error, and a read that returns no
  bytes, end the loop at once: whatever the device would deliver next is not read.
\<close>

theorem error_classes:
  assumes "length r = 8"
  shows "(reading_of r = None \<longleftrightarrow>
           (\<exists>p. fst (candidate r) = Inr p
              \<and> (\<not> checksum_ok p \<or> map_of MEASUREMENTS (p ! 0) = None)))
    \<and> (reading_of r = None \<longrightarrow>
          (\<exists>evs. iteration s r = (s, evs, None)
             \<and> published evs = [] \<and> pumps evs = 0 \<and> closes evs = 0
             \<and> run_loop s (Read_data r # rest)
                 = (case run_loop s rest of (s'', evs', out) \<Rightarrow> (s'', evs @ evs', out))))
    \<and> run_loop s (Read_OSError err # rest) = (s, [Log ERROR (OS_error err)], Returned)
    \<and> run_loop s (Read_data [] # rest) = (s, [Log ERROR Read_error, Close], Returned)"
proof -
  have skip: "\<exists>evs. iteration s r = (s, evs, None)
             \<and> published evs = [] \<and> pumps evs = 0 \<and> closes evs = 0
             \<and> run_loop s (Read_data r # rest)
                 = (case run_loop s rest of (s'', evs', out) \<Rightarrow> (s'', evs @ evs', out))"
    if none: "reading_of r = None"
  proof -
    from candidate_length8 [OF assms] obtain p where p: "fst (candidate r) = Inr p"
      by blast
    from assms have ne: "r \<noteq> []" by auto
    show ?thesis
    proof (cases rule: iteration_cases [of r s])
      case (discarded evs e)
      from discarded(2) p have "e = None"
        by (simp add: iteration_no_reading [OF none])
      with discarded ne show ?thesis by simp
    qed (use none in simp_all)
  qed
  from reading_of_None_iff [OF assms] skip show ?thesis
    by simp
qed

text \<open>A report with a wrong checksum, followed by a read error.\<close>

theorem error_classes_witness:
  "length [0, 0, 0, 1, 0x0d, 0, 0, 0 :: int] = 8
   \<and> reading_of [0, 0, 0, 1, 0x0d, 0, 0, 0] = None
   \<and> run_loop (fst (init \<lparr>discovery_prefix = ''ha'', mqtt_topic = ''co2'', friendly_name = ''desk''\<rparr>))
        [Read_data [0, 0, 0, 1, 0x0d, 0, 0, 0], Read_OSError ''gone'']
      = (fst (init \<lparr>discovery_prefix = ''ha'', mqtt_topic = ''co2'', friendly_name = ''desk''\<rparr>),
         [Log ERROR Checksum_error, Log ERROR (OS_error ''gone'')], Returned)"
proof -
  have len: "length [0, 0, 0, 1, 0x0d, 0, 0, 0 :: int] = 8"
    by simp
  have none: "reading_of [0, 0, 0, 1, 0x0d, 0, 0, 0] = None"
    by (simp add: reading_of_def candidate_def checksum_ok_def)
  have c: "candidate [0, 0, 0, 1, 0x0d, 0, 0, 0] = (Inr [0, 0, 0, 1, 0x0d, 0, 0, 0], [])"
    by (simp add: candidate_def)
  have k: "\<not> checksum_ok [0, 0, 0, 1, 0x0d, 0, 0, 0]"
    by (simp add: checksum_ok_def)
  from error_classes [OF len,
      of "fst (init \<lparr>discovery_prefix = ''ha'', mqtt_topic = ''co2'', friendly_name = ''desk''\<rparr>)"
         "[Read_OSError ''gone'']" "''gone''"] len none
  show ?thesis
    by (auto simp: iteration_no_reading c k)
qed

section \<open>The network pump\<close>

text \<open>
  C9, as stated, fails: a single report with a wrong checksum is read and dropped, and the
  network pump is not called.
\<close>

theorem pump_once_per_frame_counterexample:
  "\<not> pumps (fst (snd (run_loop
        (fst (init \<lparr>discovery_prefix = ''ha'', mqtt_topic = ''co2'', friendly_name = ''desk''\<rparr>))
        [Read_data [0, 0, 0, 1, 0x0d, 0, 0, 0]])))
     = length [Read_data [0, 0, 0, 1, 0x0d, 0, 0, 0]]"
  by (simp add: iteration_def candidate_def checksum_ok_def pumps_simps)

text \<open>
  C9, amended. Over reports of 8 elements the network pump is called once for every report
  from which a reading is decoded, ignored by the calibration gate or not, as the last
  call of its pass, and not at all in the pass over a report dropped for its checksum or
  its tag. Over the whole of \<^term>\<open>run\<close> the call that ends the discovery comes on top.
\<close>

theorem pump_once_per_decoded_frame:
  assumes "\<forall>r \<in> set frames. length r = 8" and "cache_keys_ok s"
  shows "pumps (fst (snd (run_loop s (map Read_data frames))))
      = length (filter (\<lambda>r. reading_of r \<noteq> None) frames)
    \<and> snd (snd (run_loop s (map Read_data frames))) = Blocked
    \<and> pumps (fst (snd (run s (map Read_data frames))))
      = (if discovery_prefix (cfg s) = [] then 0 else 1)
        + length (filter (\<lambda>r. reading_of r \<noteq> None) frames)
    \<and> (\<forall>r \<in> set frames.
          (reading_of r = None \<longrightarrow> pumps (fst (snd (iteration s r))) = 0)
          \<and> (reading_of r \<noteq> None \<longrightarrow>
                pumps (fst (snd (iteration s r))) = 1
                \<and> last (fst (snd (iteration s r))) = Mqtt_run (1 / 10)))"
proof -
  from run_frames [OF assms] have whole:
    "pumps (fst (snd (run_loop s (map Read_data frames))))
      = length (filter (\<lambda>r. reading_of r \<noteq> None) frames)
    \<and> snd (snd (run_loop s (map Read_data frames))) = Blocked"
    by auto
  then have session: "pumps (fst (snd (run s (map Read_data frames))))
      = (if discovery_prefix (cfg s) = [] then 0 else 1)
        + length (filter (\<lambda>r. reading_of r \<noteq> None) frames)"
    by (simp add: run_def case_prod_beta pumps_append discovery_quiet)
  have each: "(reading_of r = None \<longrightarrow> pumps (fst (snd (iteration s r))) = 0)
          \<and> (reading_of r \<noteq> None \<longrightarrow>
                pumps (fst (snd (iteration s r))) = 1
                \<and> last (fst (snd (iteration s r))) = Mqtt_run (1 / 10))"
    if "r \<in> set frames" for r
  proof (cases rule: iteration_cases [of r s])
    case (raised n x evs e)
    from that assms(1) have "length r = 8" by simp
    from iteration_no_exception [OF this assms(2)] raised(4) show ?thesis
      by simp
  qed simp_all
  from whole session each show ?thesis
    by blast
qed

text \<open>A dropped report and a temperature report: one call of the pump.\<close>

theorem pump_once_per_decoded_frame_witness:
  "length [0, 0, 0, 1, 0x0d, 0, 0, 0 :: int] = 8
   \<and> length [0x42, 0x11, 0x94, 0xe7, 0x0d, 0, 0, 0 :: int] = 8
   \<and> cache_keys_ok
       (fst (init \<lparr>discovery_prefix = ''ha'', mqtt_topic = ''co2'', friendly_name = ''desk''\<rparr>))
   \<and> pumps (fst (snd (run_loop
        (fst (init \<lparr>discovery_prefix = ''ha'', mqtt_topic = ''co2'', friendly_name = ''desk''\<rparr>))
        (map Read_data [[0, 0, 0, 1, 0x0d, 0, 0, 0], [0x42, 0x11, 0x94, 0xe7, 0x0d, 0, 0, 0]])))) = 1"
proof -
  have lens: "\<forall>r \<in> set [[0, 0, 0, 1, 0x0d, 0, 0, 0], [0x42, 0x11, 0x94, 0xe7, 0x0d, 0, 0, 0 :: int]].
      length r = 8"
    by simp
  have r1: "reading_of [0, 0, 0, 1, 0x0d, 0, 0, 0] = None"
    by (simp add: reading_of_def candidate_def checksum_ok_def)
  have r2: "reading_of [0x42, 0x11, 0x94, 0xe7, 0x0d, 0, 0, 0] \<noteq> None"
    by (simp add: reading_of_def candidate_def checksum_ok_def lookup_Temperature)
  have f: "length (filter (\<lambda>r. reading_of r \<noteq> None)
      [[0, 0, 0, 1, 0x0d, 0, 0, 0], [0x42, 0x11, 0x94, 0xe7, 0x0d, 0, 0, 0]]) = 1"
    using r1 r2 by (simp del: not_None_eq)
  from pump_once_per_decoded_frame [OF lens init_keys_ok]
  have "pumps (fst (snd (run_loop
        (fst (init \<lparr>discovery_prefix = ''ha'', mqtt_topic = ''co2'', friendly_name = ''desk''\<rparr>))
        (map Read_data [[0, 0, 0, 1, 0x0d, 0, 0, 0], [0x42, 0x11, 0x94, 0xe7, 0x0d, 0, 0, 0]]))))
      = length (filter (\<lambda>r. reading_of r \<noteq> None)
          [[0, 0, 0, 1, 0x0d, 0, 0, 0], [0x42, 0x11, 0x94, 0xe7, 0x0d, 0, 0, 0]])"
    by (rule conjunct1)
  with f init_keys_ok show ?thesis
    by simp
qed

section \<open>Closing the device\<close>

text \<open>
  C8. The calls of \<^verbatim>\<open>close\<close> on the two paths that end the loop. When the read raises an
  OS error, \<^term>\<open>run\<close> returns without closing the device; when the read returns no bytes
  it closes it once. With the finaliser \<^verbatim>\<open>__del__\<close> of the object following \<^term>\<open>run\<close>
  the counts are 1 and 2.
\<close>

theorem device_close_counts:
  "closes (fst (snd (run s (Read_OSError err # rest)))) = 0
   \<and> closes (fst (snd (run s (Read_data [] # rest)))) = 1
   \<and> closes (fst (snd (run s (Read_OSError err # rest)))
        @ del (fst (run s (Read_OSError err # rest)))) = 1
   \<and> closes (fst (snd (run s (Read_data [] # rest)))
        @ del (fst (run s (Read_data [] # rest)))) = 2"
  by (simp add: run_def closes_append discovery_quiet closes_simps del_def)

section \<open>The byte transform is reversible\<close>

text \<open>
  Arithmetic of the stages on bytes: the mask is the remainder modulo 256, the shifted
  neighbours occupy disjoint bits, and each stage can be undone.
\<close>

lemma and_255_mod: "(x :: int) AND 255 = x mod 256"
proof -
  have "(255 :: int) = mask 8"
    by (simp add: mask_eq_exp_minus_1)
  then have "x AND 255 = take_bit 8 x"
    by (simp add: take_bit_eq_mask)
  then show ?thesis
    by (simp add: take_bit_eq_mod)
qed

lemma digits_unique:
  assumes "0 \<le> q" "q < 32" "0 \<le> q'" "q' < 32" and "q + 32 * m = q' + 32 * (m' :: int)"
  shows "q = q' \<and> m = m'"
proof -
  from assms(5) have "q - q' = 32 * (m' - m)"
    by (simp add: algebra_simps)
  then have d: "32 dvd q - q'"
    by simp
  have "q = q'"
  proof (rule ccontr)
    assume "q \<noteq> q'"
    then have "q - q' \<noteq> 0" by simp
    with d have "\<bar>32 :: int\<bar> \<le> \<bar>q - q'\<bar>"
      by (rule dvd_imp_le_int [rotated])
    with assms(1-4) show False
      by linarith
  qed
  with assms(5) show ?thesis
    by simp
qed

lemma regroup: "q + (8 * a + b) * 32 = (q + 32 * b) + a * (256 :: int)"
  by (simp add: algebra_simps)

lemma digits_bound:
  assumes "0 \<le> q" "q < 32" "0 \<le> m" "m < (8 :: int)"
  shows "0 \<le> q + 32 * m \<and> q + 32 * m < 256"
  using assms by arith

lemma byte_div8:
  assumes "is_byte x"
  shows "0 \<le> x div 8" and "x div 8 < 32"
proof -
  from assms show "0 \<le> x div 8"
    by (simp add: is_byte_def pos_imp_zdiv_nonneg_iff)
  from assms have "x div 8 \<le> 255 div 8"
    by (intro zdiv_mono1) (simp_all add: is_byte_def)
  then show "x div 8 < 32"
    by simp
qed

lemma sub_inj:
  assumes "is_byte x" and "is_byte y"
    and "(0x100 + x - c) AND 0xFF = (0x100 + y - c) AND 0xFF"
  shows "x = y"
proof -
  from assms(3) have "(256 + x - c) mod 256 = (256 + y - c) mod 256"
    by (simp only: and_255_mod)
  then have "256 dvd (256 + x - c) - (256 + y - c)"
    by (simp only: mod_eq_dvd_iff)
  then have d: "256 dvd x - y"
    by simp
  show ?thesis
  proof (rule ccontr)
    assume "x \<noteq> y"
    then have "x - y \<noteq> 0" by simp
    with d have "\<bar>256 :: int\<bar> \<le> \<bar>x - y\<bar>"
      by (rule dvd_imp_le_int [rotated])
    with assms(1,2) show False
      unfolding is_byte_def by linarith
  qed
qed

lemma mix_value:
  assumes "is_byte x"
  shows "((drop_bit 3 x) OR (push_bit 5 w)) AND 0xFF = x div 8 + 32 * (w mod 8)"
proof -
  note q = byte_div8 [OF assms]
  then have small: "take_bit 5 (drop_bit 3 x) = drop_bit 3 x"
    by (simp add: take_bit_int_eq_self drop_bit_eq_div)
  have "take_bit 5 (drop_bit 3 x) AND push_bit 5 w = 0"
    by (rule bit_eqI) (auto simp: bit_simps)
  then have "drop_bit 3 x AND push_bit 5 w = 0"
    by (simp only: small)
  then have "drop_bit 3 x + push_bit 5 w = drop_bit 3 x OR push_bit 5 w"
    by (rule disjunctive_add_eq_or)
  then have "((drop_bit 3 x) OR (push_bit 5 w)) AND 0xFF = (x div 8 + w * 32) mod 256"
    by (simp add: and_255_mod drop_bit_eq_div push_bit_eq_mult)
  also have "x div 8 + w * 32 = x div 8 + (8 * (w div 8) + w mod 8) * 32"
    by (simp only: mult_div_mod_eq)
  also have "\<dots> = (x div 8 + 32 * (w mod 8)) + (w div 8) * 256"
    by (rule regroup)
  also have "\<dots> mod 256 = (x div 8 + 32 * (w mod 8)) mod 256"
    by (rule mod_mult_self1)
  also have "\<dots> = x div 8 + 32 * (w mod 8)"
  proof (rule mod_pos_pos_trivial)
    have m: "0 \<le> w mod 8" "w mod 8 < 8" by simp_all
    from digits_bound [OF q m]
    show "0 \<le> x div 8 + 32 * (w mod 8)" "x div 8 + 32 * (w mod 8) < 256"
      by simp_all
  qed
  finally show ?thesis .
qed

lemma mix_inj:
  assumes "is_byte x" and "is_byte x'"
    and "((drop_bit 3 x) OR (push_bit 5 w)) AND 0xFF = ((drop_bit 3 x') OR (push_bit 5 w')) AND 0xFF"
  shows "drop_bit 3 x = drop_bit 3 x' \<and> take_bit 3 w = take_bit 3 w'"
proof -
  from assms have e: "x div 8 + 32 * (w mod 8) = x' div 8 + 32 * (w' mod 8)"
    by (simp only: mix_value)
  note q = byte_div8 [OF assms(1)] and q' = byte_div8 [OF assms(2)]
  from digits_unique [OF q q' e] show ?thesis
    by (simp add: drop_bit_eq_div take_bit_eq_mod)
qed

lemma parts_eq:
  assumes "drop_bit 3 u = drop_bit 3 v" and "take_bit 3 u = take_bit 3 v"
  shows "u = (v :: int)"
proof -
  have "u = push_bit 3 (drop_bit 3 u) + take_bit 3 u"
    by (simp only: bits_ident)
  also have "\<dots> = push_bit 3 (drop_bit 3 v) + take_bit 3 v"
    by (simp only: assms)
  also have "\<dots> = v"
    by (simp only: bits_ident)
  finally show ?thesis .
qed

lemma xor_cancel_right:
  assumes "a XOR k = b XOR (k :: int)"
  shows "a = b"
proof -
  from assms have "(a XOR k) XOR k = (b XOR k) XOR k" by simp
  then show ?thesis by (simp add: xor.assoc)
qed

lemma xor_byte:
  assumes "is_byte a" and "is_byte k"
  shows "is_byte (a XOR k)"
proof -
  from assms have "a XOR k < 2 ^ 8"
    by (intro XOR_upper) (simp_all add: is_byte_def)
  with assms show ?thesis
    by (simp add: is_byte_def)
qed

lemma and_255_byte: "is_byte (x AND 0xFF)"
  by (simp add: is_byte_def)

lemma spec_transform_nth:
  assumes "i < 8"
  shows "spec_transform key input ! i =
    (0x100 + spec_stage3 (spec_stage2 key (spec_stage1 input)) ! i - spec_swapped ! i) AND 0xFF"
  using assms by (simp add: spec_transform_def Let_def)

lemma spec_stage3_nth:
  assumes "i < 8"
  shows "spec_stage3 stage2 ! i =
    ((drop_bit 3 (stage2 ! i)) OR (push_bit 5 (stage2 ! nat ((int i - 1 + 8) mod 8)))) AND 0xFF"
  using assms by (simp add: spec_stage3_def)

lemma spec_stage2_nth:
  assumes "i < 8"
  shows "spec_stage2 key stage1 ! i = (stage1 ! i) XOR (key ! i)"
  using assms by (simp add: spec_stage2_def)

lemma KEY_bytes: "i < 8 \<Longrightarrow> is_byte (KEY ! i)"
  by (drule less8_cases) (auto simp: KEY_def is_byte_def)

lemma spec_stage1_bytes:
  assumes "d \<in> blocks" and "i < 8"
  shows "is_byte (spec_stage1 d ! i)"
proof -
  from assms(1) have len: "length d = 8" and bytes: "\<forall>b \<in> set d. is_byte b"
    by (simp_all add: blocks_def)
  from less8_cases [OF assms(2)] have "index_of [2, 4, 0, 7, 1, 6, 5, 3] i < 8"
    by (auto simp: index_of_def)
  with len bytes have "is_byte (d ! index_of [2, 4, 0, 7, 1, 6, 5, 3] i)"
    by simp
  with assms(2) show ?thesis
    by (simp add: spec_stage1_def)
qed

lemma spec_stage2_bytes:
  assumes "d \<in> blocks" and "i < 8"
  shows "is_byte (spec_stage2 KEY (spec_stage1 d) ! i)"
  using assms by (simp add: spec_stage2_nth xor_byte spec_stage1_bytes KEY_bytes)

lemma pred_index: "j < 8 \<Longrightarrow> \<exists>i < 8. nat ((int i - 1 + 8) mod 8) = j"
proof -
  assume "j < 8"
  then have "(j + 1) mod 8 < 8 \<and> nat ((int ((j + 1) mod 8) - 1 + 8) mod 8) = j"
    by (drule_tac less8_cases) auto
  then show ?thesis by blast
qed

lemma spec_transform_inj:
  assumes x: "x \<in> blocks" and y: "y \<in> blocks"
    and eq: "spec_transform KEY x = spec_transform KEY y"
  shows "x = y"
proof -
  let ?s1 = "\<lambda>d. spec_stage1 d" and ?s2 = "\<lambda>d. spec_stage2 KEY (spec_stage1 d)"
  let ?s3 = "\<lambda>d. spec_stage3 (spec_stage2 KEY (spec_stage1 d))"
  have s3: "?s3 x ! i = ?s3 y ! i" if "i < 8" for i
  proof -
    from eq have "spec_transform KEY x ! i = spec_transform KEY y ! i" by simp
    then have e: "(0x100 + ?s3 x ! i - spec_swapped ! i) AND 0xFF
        = (0x100 + ?s3 y ! i - spec_swapped ! i) AND 0xFF"
      by (simp only: spec_transform_nth [OF that])
    have b: "is_byte (?s3 x ! i)" "is_byte (?s3 y ! i)"
      by (simp_all only: spec_stage3_nth [OF that] and_255_byte)
    from b e show ?thesis
      by (rule sub_inj)
  qed
  have halves: "drop_bit 3 (?s2 x ! i) = drop_bit 3 (?s2 y ! i)
      \<and> take_bit 3 (?s2 x ! nat ((int i - 1 + 8) mod 8))
          = take_bit 3 (?s2 y ! nat ((int i - 1 + 8) mod 8))" if "i < 8" for i
  proof (rule mix_inj)
    show "is_byte (?s2 x ! i)" "is_byte (?s2 y ! i)"
      using x y that by (simp_all only: spec_stage2_bytes)
    from s3 [OF that] show
      "((drop_bit 3 (?s2 x ! i)) OR (push_bit 5 (?s2 x ! nat ((int i - 1 + 8) mod 8)))) AND 0xFF
       = ((drop_bit 3 (?s2 y ! i)) OR (push_bit 5 (?s2 y ! nat ((int i - 1 + 8) mod 8)))) AND 0xFF"
      by (simp only: spec_stage3_nth [OF that])
  qed
  have s2: "?s2 x ! j = ?s2 y ! j" if "j < 8" for j
  proof -
    from pred_index [OF that] obtain i where i: "i < 8" "nat ((int i - 1 + 8) mod 8) = j"
      by blast
    from halves [OF i(1)] i(2) have t: "take_bit 3 (?s2 x ! j) = take_bit 3 (?s2 y ! j)"
      by simp
    from halves [OF that] have d: "drop_bit 3 (?s2 x ! j) = drop_bit 3 (?s2 y ! j)"
      by (rule conjunct1)
    from d t show ?thesis
      by (rule parts_eq)
  qed
  have s1: "?s1 x ! j = ?s1 y ! j" if "j < 8" for j
  proof -
    from s2 [OF that] have "(?s1 x ! j) XOR (KEY ! j) = (?s1 y ! j) XOR (KEY ! j)"
      by (simp only: spec_stage2_nth [OF that])
    then show ?thesis
      by (rule xor_cancel_right)
  qed
  from x y have len: "length x = 8" "length y = 8"
    by (simp_all add: blocks_def)
  show ?thesis
  proof (rule nth_equalityI)
    from len show "length x = length y" by simp
  next
    fix i assume "i < length x"
    with len have i: "i < 8" by simp
    then have "[2, 4, 0, 7, 1, 6, 5, 3] ! i < (8 :: nat)"
      by (drule_tac less8_cases) auto
    from s1 [OF this] show "x ! i = y ! i"
      by (simp only: spec_stage1_positions [OF len(1) i] spec_stage1_positions [OF len(2) i])
  qed
qed

lemma blocks_finite: "finite blocks"
proof -
  have "blocks \<subseteq> {xs. set xs \<subseteq> {0..255} \<and> length xs = 8}"
    by (auto simp: blocks_def is_byte_def)
  moreover have "finite {xs :: int list. set xs \<subseteq> {0..255} \<and> length xs = 8}"
    by (rule finite_lists_length_eq) simp
  ultimately show ?thesis
    by (rule finite_subset)
qed

lemma decrypt_blocks:
  assumes "d \<in> blocks"
  shows "decrypt KEY d = Inr (spec_transform KEY d)" and "spec_transform KEY d \<in> blocks"
proof -
  from assms have "length d = 8" by (simp add: blocks_def)
  then obtain a b c e f g h i where "d = [a, b, c, e, f, g, h, i]"
    by (rule length8E)
  then show "decrypt KEY d = Inr (spec_transform KEY d)"
    by (simp only: decrypt_explicit)
  show "spec_transform KEY d \<in> blocks"
    using spec_transform_bytes [of _ KEY d]
    by (simp add: blocks_def spec_transform_length is_byte_def)
qed

text \<open>
  C6. On the blocks of 8 bytes \<^term>\<open>decrypt\<close> with the fixed key is injective: two blocks
  with the same result are equal. Its results on blocks are blocks, so it is a bijection
  of the blocks of 8 bytes.
\<close>

theorem decrypt_reversible:
  "(\<forall>x \<in> blocks. \<forall>y \<in> blocks. decrypt KEY x = decrypt KEY y \<longrightarrow> x = y)
   \<and> bij_betw (\<lambda>d. projr (decrypt KEY d)) blocks blocks"
proof -
  have inj: "x = y" if "x \<in> blocks" "y \<in> blocks" "decrypt KEY x = decrypt KEY y" for x y
  proof -
    from that have "spec_transform KEY x = spec_transform KEY y"
      by (simp add: decrypt_blocks(1))
    with that(1,2) show ?thesis
      by (rule spec_transform_inj)
  qed
  then have inj_on: "inj_on (\<lambda>d. projr (decrypt KEY d)) blocks"
    by (auto simp: inj_on_def decrypt_blocks(1) dest: spec_transform_inj)
  have "(\<lambda>d. projr (decrypt KEY d)) ` blocks \<subseteq> blocks"
    by (auto simp: decrypt_blocks)
  with blocks_finite have "(\<lambda>d. projr (decrypt KEY d)) ` blocks = blocks"
    using inj_on by (rule endo_inj_surj)
  with inj_on have "bij_betw (\<lambda>d. projr (decrypt KEY d)) blocks blocks"
    by (simp add: bij_betw_def)
  with inj show ?thesis
    by blast
qed

text \<open>
  Two blocks that differ in one byte have different results, and a block is reached as a
  result.
\<close>

theorem decrypt_reversible_witness:
  "[0, 0, 0, 0, 0, 0, 0, 0] \<in> blocks \<and> [1, 0, 0, 0, 0, 0, 0, 0] \<in> blocks
   \<and> decrypt KEY [0, 0, 0, 0, 0, 0, 0, 0] \<noteq> decrypt KEY [1, 0, 0, 0, 0, 0, 0, 0]
   \<and> [84, 81, 130, 60, 65, 113, 232, 60] \<in> projr ` decrypt KEY ` blocks"
proof -
  have a: "[0, 0, 0, 0, 0, 0, 0, 0] \<in> blocks" and b: "[1, 0, 0, 0, 0, 0, 0, 0] \<in> blocks"
    and c: "[84, 81, 130, 60, 65, 113, 232, 60] \<in> blocks"
    by (simp_all add: blocks_def is_byte_def)
  from decrypt_reversible a b have "decrypt KEY [0, 0, 0, 0, 0, 0, 0, 0] \<noteq> decrypt KEY [1, 0, 0, 0, 0, 0, 0, 0]"
    by fastforce
  moreover from decrypt_reversible have "(\<lambda>d. projr (decrypt KEY d)) ` blocks = blocks"
    by (simp add: bij_betw_def)
  with c have "[84, 81, 130, 60, 65, 113, 232, 60] \<in> projr ` decrypt KEY ` blocks"
    by (simp add: image_image)
  ultimately show ?thesis
    using a b by simp
qed

end
